theory Spec2Isabelle
  imports Complex_Main
begin

section \<open>JavaScript strings and the built-ins the validation rules call\<close>

text \<open>
  A JavaScript string is a sequence of UTF-16 code units; a code unit is modelled by its
  number. \<open>js\<close> writes an ASCII literal as such a sequence. Element names, attribute
  values and the messages the program shows are fixed ASCII texts and stay HOL strings.
\<close>

type_synonym js_string = "nat list"

definition js :: "string \<Rightarrow> js_string" where
  "js s = map of_char s"

text \<open>
  \<open>WhiteSpace\<close> and \<open>LineTerminator\<close> of ECMAScript: TAB, LF, VT, FF, CR, SPACE, NBSP,
  U+1680, U+2000 to U+200A, U+2028, U+2029, U+202F, U+205F, U+3000 and U+FEFF. These are
  the code units \<open>String.prototype.trim\<close>, \<open>parseInt\<close> and \<open>ToNumber\<close> strip.
\<close>

definition is_StrWhiteSpaceChar :: "nat \<Rightarrow> bool" where
  "is_StrWhiteSpaceChar c =
     (c \<in> set [9, 10, 11, 12, 13, 32, 160, 5760, 8232, 8233, 8239, 8287, 12288, 65279]
      \<or> (8192 \<le> c \<and> c \<le> 8202))"

definition trim :: "js_string \<Rightarrow> js_string" where
  "trim s = rev (dropWhile is_StrWhiteSpaceChar (rev (dropWhile is_StrWhiteSpaceChar s)))"

text \<open>
  A Number value. \<open>Finite\<close> carries the mathematical value of what was read, before it
  is rounded to a double: the program only tests a Number for \<open>NaN\<close> and compares an
  integer with 1, and rounding to the nearest double is monotone and keeps 0 and 1, so
  neither test depends on the rounding.
\<close>

datatype js_number = NaN | PosInfinity | NegInfinity | Finite rat

fun js_negate :: "js_number \<Rightarrow> js_number" where
  "js_negate NaN = NaN"
| "js_negate PosInfinity = NegInfinity"
| "js_negate NegInfinity = PosInfinity"
| "js_negate (Finite r) = Finite (- r)"

text \<open>The operator \<open><\<close> on two Numbers; a comparison with \<open>NaN\<close> is false.\<close>

fun js_less :: "js_number \<Rightarrow> js_number \<Rightarrow> bool" where
  "js_less NaN _ = False"
| "js_less _ NaN = False"
| "js_less PosInfinity _ = False"
| "js_less NegInfinity NegInfinity = False"
| "js_less NegInfinity _ = True"
| "js_less (Finite a) PosInfinity = True"
| "js_less (Finite a) NegInfinity = False"
| "js_less (Finite a) (Finite b) = (a < b)"

definition is_digit :: "nat \<Rightarrow> bool" where
  "is_digit c = (48 \<le> c \<and> c \<le> 57)"

definition is_hex_digit :: "nat \<Rightarrow> bool" where
  "is_hex_digit c = (is_digit c \<or> (97 \<le> c \<and> c \<le> 102) \<or> (65 \<le> c \<and> c \<le> 70))"

definition is_octal_digit :: "nat \<Rightarrow> bool" where
  "is_octal_digit c = (48 \<le> c \<and> c \<le> 55)"

definition is_binary_digit :: "nat \<Rightarrow> bool" where
  "is_binary_digit c = (c = 48 \<or> c = 49)"

definition digit_value :: "nat \<Rightarrow> nat" where
  "digit_value c = (if 97 \<le> c then c - 87 else if 65 \<le> c then c - 55 else c - 48)"

text \<open>The integer a run of digits denotes in radix \<open>R\<close>.\<close>

definition radix_value :: "nat \<Rightarrow> js_string \<Rightarrow> nat" where
  "radix_value R ds = foldl (\<lambda>a c. R * a + digit_value c) 0 ds"

subsection \<open>\<open>ToNumber\<close> on a string (\<open>StringToNumber\<close>, the grammar \<open>StringNumericLiteral\<close>)\<close>

text \<open>\<open>SignedInteger\<close>: decimal digits with an optional sign.\<close>

definition SignedInteger :: "js_string \<Rightarrow> int option" where
  "SignedInteger r =
     (case r of
        [] \<Rightarrow> None
      | c # ds \<Rightarrow>
          if c = 43 then
            (if ds \<noteq> [] \<and> list_all is_digit ds then Some (int (radix_value 10 ds)) else None)
          else if c = 45 then
            (if ds \<noteq> [] \<and> list_all is_digit ds then Some (- int (radix_value 10 ds)) else None)
          else if list_all is_digit r then Some (int (radix_value 10 r))
          else None)"

text \<open>
  What follows the mantissa: nothing (exponent 0) or \<open>e\<close>/\<open>E\<close> and a \<open>SignedInteger\<close>;
  \<open>None\<close> when the rest is neither.
\<close>

definition ExponentPart_opt :: "js_string \<Rightarrow> int option" where
  "ExponentPart_opt r =
     (case r of
        [] \<Rightarrow> Some 0
      | c # r' \<Rightarrow> if c = 101 \<or> c = 69 then SignedInteger r' else None)"

definition scale10 :: "rat \<Rightarrow> int \<Rightarrow> rat" where
  "scale10 m e = (if 0 \<le> e then m * 10 ^ nat e else m / 10 ^ nat (- e))"

definition StrUnsignedDecimalLiteral :: "js_string \<Rightarrow> js_number" where
  "StrUnsignedDecimalLiteral s =
     (if s = js ''Infinity'' then PosInfinity
      else
        let ip = takeWhile is_digit s; r = dropWhile is_digit s in
        case r of
          [] \<Rightarrow> if ip = [] then NaN else Finite (of_nat (radix_value 10 ip))
        | c # r' \<Rightarrow>
            if c = 46 then
              (let fp = takeWhile is_digit r'; r'' = dropWhile is_digit r' in
               if ip = [] \<and> fp = [] then NaN
               else
                 case ExponentPart_opt r'' of
                   None \<Rightarrow> NaN
                 | Some e \<Rightarrow>
                     Finite (scale10 (of_nat (radix_value 10 ip)
                                      + of_nat (radix_value 10 fp) / 10 ^ length fp) e))
            else if ip = [] then NaN
            else
              (case ExponentPart_opt r of
                 None \<Rightarrow> NaN
               | Some e \<Rightarrow> Finite (scale10 (of_nat (radix_value 10 ip)) e)))"

definition StrDecimalLiteral :: "js_string \<Rightarrow> js_number" where
  "StrDecimalLiteral s =
     (case s of
        [] \<Rightarrow> NaN
      | c # r \<Rightarrow>
          if c = 43 then StrUnsignedDecimalLiteral r
          else if c = 45 then js_negate (StrUnsignedDecimalLiteral r)
          else StrUnsignedDecimalLiteral s)"

text \<open>\<open>0x\<close>, \<open>0o\<close> and \<open>0b\<close> literals (either case of the letter), unsigned.\<close>

definition NonDecimalIntegerLiteral :: "js_string \<Rightarrow> js_number option" where
  "NonDecimalIntegerLiteral s =
     (case s of
        z # p # ds \<Rightarrow>
          if z = 48 \<and> ds \<noteq> [] then
            (if (p = 120 \<or> p = 88) \<and> list_all is_hex_digit ds
               then Some (Finite (of_nat (radix_value 16 ds)))
             else if (p = 111 \<or> p = 79) \<and> list_all is_octal_digit ds
               then Some (Finite (of_nat (radix_value 8 ds)))
             else if (p = 98 \<or> p = 66) \<and> list_all is_binary_digit ds
               then Some (Finite (of_nat (radix_value 2 ds)))
             else None)
          else None
      | _ \<Rightarrow> None)"

definition StringToNumber :: "js_string \<Rightarrow> js_number" where
  "StringToNumber str =
     (let t = trim str in
      if t = [] then Finite 0
      else
        case NonDecimalIntegerLiteral t of
          Some n \<Rightarrow> n
        | None \<Rightarrow> StrDecimalLiteral t)"

text \<open>The global \<open>isNaN\<close>, called on a string: \<open>ToNumber\<close>, then the test for \<open>NaN\<close>.\<close>

definition isNaN :: "js_string \<Rightarrow> bool" where
  "isNaN v = (StringToNumber v = NaN)"

subsection \<open>\<open>parseInt\<close> with no radix argument\<close>

text \<open>
  Leading white space is skipped, one sign is read, a \<open>0x\<close>/\<open>0X\<close> prefix selects radix
  16, and the longest run of digits of the radix is the integer; no digit gives \<open>NaN\<close>.
  What follows the digits is ignored.
\<close>

definition parseInt :: "js_string \<Rightarrow> js_number" where
  "parseInt string =
     (let S = dropWhile is_StrWhiteSpaceChar string;
          sign = (if S \<noteq> [] \<and> hd S = 45 then - 1 else (1::int));
          S1 = (if S \<noteq> [] \<and> (hd S = 43 \<or> hd S = 45) then tl S else S);
          hex = (2 \<le> length S1 \<and> (take 2 S1 = js ''0x'' \<or> take 2 S1 = js ''0X''));
          S2 = (if hex then drop 2 S1 else S1);
          Z = (if hex then takeWhile is_hex_digit S2 else takeWhile is_digit S2)
      in if Z = [] then NaN
         else Finite (of_int (sign * int (radix_value (if hex then 16 else 10) Z))))"

section \<open>Form controls and the field rules (\<open>ActivityManager.validateField\<close>)\<close>

text \<open>
  An \<open>input\<close>, \<open>textarea\<close> or \<open>select\<close> element: its \<open>name\<close>, its current \<open>value\<close>, the
  value \<open>form.reset()\<close> restores, whether it has the \<open>required\<close> attribute, and its
  \<open>parentElement\<close>.
\<close>

record control =
  fname :: string
  fvalue :: js_string
  fdefault :: js_string
  frequired :: bool
  fparent :: nat

text \<open>
  Lines 176 to 212 of \<open>validateField\<close>: the pair \<open>(isValid, errorMessage)\<close> the rules
  leave. The \<open>required\<close> rule runs first and the rule of the field's name can overwrite
  its message; a JavaScript string is truthy when it is not empty.
\<close>

definition field_rules :: "control \<Rightarrow> bool \<times> string" where
  "field_rules field =
     (let v = trim (fvalue field);
          r0 = (if frequired field \<and> v = [] then (False, ''This field is required'')
                else (True, ''''))
      in if fname field = ''title'' then
           (if v \<noteq> [] \<and> length v < 3
              then (False, ''Title must be at least 3 characters'') else r0)
         else if fname field = ''description'' then
           (if v \<noteq> [] \<and> length v < 10
              then (False, ''Description must be at least 10 characters'') else r0)
         else if fname field = ''durationHours'' then
           (if v \<noteq> [] \<and> (isNaN v \<or> js_less (parseInt v) (Finite 1))
              then (False, ''Duration must be a positive number'') else r0)
         else r0)"

section \<open>Dates (\<open>new Date(string)\<close> and the comparison of two Dates)\<close>

text \<open>
  \<open>new Date(s)\<close> holds a time value in milliseconds, or \<open>NaN\<close> (here \<open>None\<close>) for an
  invalid date. ECMAScript fixes the result for the date-only form \<open>YYYY-MM-DD\<close>, read
  as UTC midnight of that day; this is the form a date input delivers. What any other
  string gives is left to the browser, which the model takes as a parameter.
\<close>

definition DayFromYear :: "int \<Rightarrow> int" where
  "DayFromYear y =
     365 * (y - 1970) + (y - 1969) div 4 - (y - 1901) div 100 + (y - 1601) div 400"

definition InLeapYear :: "int \<Rightarrow> bool" where
  "InLeapYear y = (y mod 4 = 0 \<and> (y mod 100 \<noteq> 0 \<or> y mod 400 = 0))"

definition DaysInMonth :: "int \<Rightarrow> int \<Rightarrow> int" where
  "DaysInMonth y m =
     (if m = 2 then (if InLeapYear y then 29 else 28)
      else if m = 4 \<or> m = 6 \<or> m = 9 \<or> m = 11 then 30 else 31)"

text \<open>
  The days of year \<open>y\<close> before the first of month \<open>m\<close> (1 to 12): the table by which
  ECMAScript tells the month from the day within the year.
\<close>

definition DaysBeforeMonth :: "int \<Rightarrow> int \<Rightarrow> int" where
  "DaysBeforeMonth y m =
     [0, 31, 59, 90, 120, 151, 181, 212, 243, 273, 304, 334] ! nat (m - 1)
     + (if 2 < m \<and> InLeapYear y then 1 else 0)"

definition MakeDay :: "int \<Rightarrow> int \<Rightarrow> int \<Rightarrow> int" where
  "MakeDay y m d = DayFromYear y + DaysBeforeMonth y m + d - 1"

definition msPerDay :: int where
  "msPerDay = 86400000"

text \<open>
  The year, month and day a string of the form \<open>YYYY-MM-DD\<close> names, when that is a day
  of the calendar.
\<close>

definition calendar_date :: "js_string \<Rightarrow> (int \<times> int \<times> int) option" where
  "calendar_date s =
     (case s of
        [y1, y2, y3, y4, h1, m1, m2, h2, d1, d2] \<Rightarrow>
          (let y = int (radix_value 10 [y1, y2, y3, y4]);
               m = int (radix_value 10 [m1, m2]);
               d = int (radix_value 10 [d1, d2])
           in if list_all is_digit [y1, y2, y3, y4, m1, m2, d1, d2] \<and> h1 = 45 \<and> h2 = 45
                 \<and> 1 \<le> m \<and> m \<le> 12 \<and> 1 \<le> d \<and> d \<le> DaysInMonth y m
              then Some (y, m, d)
              else None)
      | _ \<Rightarrow> None)"

definition date_only :: "js_string \<Rightarrow> int option" where
  "date_only s = map_option (\<lambda>(y, m, d). MakeDay y m d * msPerDay) (calendar_date s)"


definition Date_parse :: "(js_string \<Rightarrow> int option) \<Rightarrow> js_string \<Rightarrow> int option" where
  "Date_parse impl s = (case date_only s of Some t \<Rightarrow> Some t | None \<Rightarrow> impl s)"

text \<open>\<open>a < b\<close> on two Dates compares their time values; with an invalid date it is false.\<close>

fun date_less :: "int option \<Rightarrow> int option \<Rightarrow> bool" where
  "date_less (Some a) (Some b) = (a < b)"
| "date_less _ _ = False"

section \<open>The page and the \<open>ActivityManager\<close> instance\<close>

text \<open>A file of the file input: name, size and MIME type.\<close>

record file_desc =
  file_name :: js_string
  file_size :: nat
  file_type :: js_string

text \<open>A toast of \<open>showNotification(message, type, title)\<close>.\<close>

datatype notification = Notification string string string

text \<open>Calling what is not a function, or reading a property of \<open>null\<close>, throws a \<open>TypeError\<close>.\<close>

datatype js_error = TypeError

text \<open>
  What the identifier \<open>NotificationManager\<close> denotes where this module uses it. The
  notifications module declares \<open>class NotificationManager\<close>, creates one instance and
  assigns it to \<open>window.NotificationManager\<close>. Loaded as classic scripts, the class
  declaration is a binding of the global scope, which an identifier finds before any
  property of \<open>window\<close>: the identifier denotes the class. Loaded as modules, the
  declaration stays in its module and the identifier denotes the instance. Which of the
  two holds is the page's choice. The calls \<open>activityManager.removeFile(...)\<close> that
  \<open>displaySelectedFiles\<close> writes into the page and \<open>new NotificationManager()\<close> of the
  application script work under the classic load only.
\<close>

datatype global_binding = The_class | The_instance

text \<open>The multipart body \<open>collectFormData\<close> builds.\<close>

record form_data =
  fd_parts :: "(string \<times> js_string) list"
  fd_documents :: "file_desc list"

text \<open>
  The calls the instance makes through \<open>Utils.makeRequest\<close>: the body of
  \<open>POST /activities\<close>, and the query parameters \<open>page\<close>, \<open>per_page\<close>, \<open>status\<close> and \<open>search\<close>
  of \<open>GET /activities\<close>.
\<close>

datatype request =
  POST_activities form_data
| GET_activities int int "string option" "js_string option"

text \<open>The async method that waits for a request to settle.\<close>

datatype awaiting = Submit_awaits | Load_awaits

text \<open>
  How a call of \<open>fetch\<close> settles: it fails with an error that has a message, or it
  delivers a response with a status and a body, which \<open>response.json()\<close> parses or
  rejects with an error that has a message. Of a parsed body the program reads
  \<open>message\<close> (empty when the property is missing or falsy) and \<open>activities\<close> (a list of
  ids, \<open>None\<close> when the property is missing).
\<close>

record json_body =
  body_message :: string
  body_activities :: "nat list option"

datatype outcome = Fetch_fails string | Responds nat "string + json_body"

text \<open>
  The state the methods read and write. Elements are identified by a number.
  \<^item> \<open>currentStep\<close> to \<open>searchQuery\<close> are the fields of the \<open>ActivityManager\<close> object.
  \<^item> \<open>controls\<close> gives each control; \<open>error_class\<close> says whether its class list has
    \<open>error\<close>; \<open>form_errors p\<close> lists the texts of the \<open>.form-error\<close> elements below
    element \<open>p\<close>, in document order. Parents of controls are taken not to lie inside one
    another, so that each has a list of its own.
  \<^item> \<open>form_steps n\<close> is the element \<open>.form-step[data-step="n"]\<close>, given by its controls in
    document order, \<open>None\<close> when the page has none; \<open>step_active\<close> is the step whose
    element has class \<open>active\<close>.
  \<^item> \<open>addActivityForm\<close> is the form, given by its controls; \<open>inside_form p\<close> says that
    element \<open>p\<close> is the form or lies in it.
  \<^item> \<open>element_ids\<close> is \<open>document.getElementById\<close> on controls; \<open>documents\<close> is the
    file list of the file input \<open>#documents\<close> and \<open>selectedFiles\<close> what the container
    \<open>#selectedFiles\<close> shows (\<open>None\<close>: no such element); \<open>loadingOverlay\<close> says whether
    \<open>#loadingOverlay\<close> has class \<open>show\<close>.
  \<^item> \<open>toasts\<close>, \<open>requests\<close> and \<open>in_flight\<close> record the toasts the methods of this object
    have shown, the network calls made, and the calls not yet settled, each in order.
  \<^item> \<open>browser_Date_parse\<close> is what the browser makes of a date string that is not
    \<open>YYYY-MM-DD\<close>.
  \<^item> \<open>NotificationManager_binding\<close> is what the identifier \<open>NotificationManager\<close> denotes.
  \<^item> \<open>localStorage\<close> is the storage of that name and \<open>location_href\<close> the address the
    window was last sent to.
\<close>

record page =
  currentStep :: int
  totalSteps :: int
  isLoading :: bool
  activities :: "nat list option"
  currentFilter :: string
  currentPage :: int
  itemsPerPage :: int
  searchQuery :: js_string
  controls :: "nat \<Rightarrow> control"
  error_class :: "nat \<Rightarrow> bool"
  form_errors :: "nat \<Rightarrow> string list"
  form_steps :: "int \<Rightarrow> nat list option"
  step_active :: "int option"
  addActivityForm :: "nat list option"
  inside_form :: "nat \<Rightarrow> bool"
  element_ids :: "string \<Rightarrow> nat option"
  documents :: "file_desc list option"
  documents_in_form :: bool
  selectedFiles :: "file_desc list option"
  loadingOverlay :: "bool option"
  toasts :: "notification list"
  requests :: "request list"
  in_flight :: "awaiting list"
  browser_Date_parse :: "js_string \<Rightarrow> int option"
  NotificationManager_binding :: global_binding
  localStorage :: "string \<Rightarrow> js_string option"
  location_href :: string

definition new_Date :: "page \<Rightarrow> js_string \<Rightarrow> int option" where
  "new_Date s str = Date_parse (browser_Date_parse s) str"

text \<open>
  \<open>NotificationManager.showNotification(...)\<close>. \<open>showNotification\<close> is a method of the
  instances of the class and not a static one: on the class the property is
  \<open>undefined\<close> and the call throws a \<open>TypeError\<close>; on the instance it appends a toast.
\<close>

definition showNotification :: "string \<Rightarrow> string \<Rightarrow> string \<Rightarrow> page \<Rightarrow> js_error + page" where
  "showNotification message type title s =
     (case NotificationManager_binding s of
        The_class \<Rightarrow> Inl TypeError
      | The_instance \<Rightarrow> Inr (s\<lparr>toasts := toasts s @ [Notification message type title]\<rparr>))"

subsection \<open>Error markers (\<open>showFieldError\<close>, \<open>clearFieldError\<close>)\<close>

text \<open>
  \<open>clearFieldError\<close> drops the class and removes the first \<open>.form-error\<close> below the
  field's parent, when there is one. \<open>showFieldError\<close> sets the class, removes the first
  marker there and appends a new one as the parent's last child.
\<close>

definition clearFieldError :: "nat \<Rightarrow> page \<Rightarrow> page" where
  "clearFieldError field s =
     (let p = fparent (controls s field) in
      s\<lparr>error_class := (error_class s)(field := False),
        form_errors := (form_errors s)(p := tl (form_errors s p))\<rparr>)"

definition showFieldError :: "nat \<Rightarrow> string \<Rightarrow> page \<Rightarrow> page" where
  "showFieldError field message s =
     (let p = fparent (controls s field) in
      s\<lparr>error_class := (error_class s)(field := True),
        form_errors := (form_errors s)(p := tl (form_errors s p) @ [message])\<rparr>)"

subsection \<open>\<open>validateField\<close>, \<open>validateDates\<close>, \<open>validateCurrentStep\<close>\<close>

definition validateField :: "nat \<Rightarrow> page \<Rightarrow> bool \<times> page" where
  "validateField field s =
     (let s1 = clearFieldError field s;
          (isValid, errorMessage) = field_rules (controls s field)
      in (isValid, if \<not> isValid then showFieldError field errorMessage s1 else s1))"

text \<open>
  \<open>validateDates\<close> returns \<open>undefined\<close> (here \<open>None\<close>) from its bare \<open>return\<close> when one
  of the two date elements is missing, and a boolean otherwise.
\<close>

definition validateDates :: "page \<Rightarrow> bool option \<times> page" where
  "validateDates s =
     (case (element_ids s ''startDate'', element_ids s ''endDate'') of
        (Some startDate, Some endDate) \<Rightarrow>
          (let startValue = fvalue (controls s startDate);
               endValue = fvalue (controls s endDate)
           in if startValue \<noteq> [] \<and> endValue \<noteq> [] then
                (if date_less (new_Date s endValue) (new_Date s startValue)
                   then (Some False,
                         showFieldError endDate ''End date must be after start date'' s)
                 else (Some True, clearFieldError endDate s))
              else (Some True, s))
      | _ \<Rightarrow> (None, s))"

text \<open>The \<open>forEach\<close> of \<open>validateCurrentStep\<close>: every field is validated, in order.\<close>

fun validate_fields :: "nat list \<Rightarrow> bool \<Rightarrow> page \<Rightarrow> bool \<times> page" where
  "validate_fields [] allValid s = (allValid, s)"
| "validate_fields (field # rest) allValid s =
     (let (ok, s1) = validateField field s
      in validate_fields rest (if \<not> ok then False else allValid) s1)"

definition validateCurrentStep :: "page \<Rightarrow> bool \<times> page" where
  "validateCurrentStep s =
     (case form_steps s (currentStep s) of
        None \<Rightarrow> (True, s)
      | Some step_fields \<Rightarrow>
          (let (allValid, s1) = validate_fields step_fields True s
           in if currentStep s = 2 then
                (let (r, s2) = validateDates s1
                 in (if r \<noteq> Some True then False else allValid, s2))
              else (allValid, s1)))"

subsection \<open>Navigation (\<open>initializeMultiStepForm\<close>, \<open>nextStep\<close>, \<open>previousStep\<close>)\<close>

text \<open>
  \<open>updateStepDisplay\<close> marks the element of the current step active, when the page has
  it. The three buttons it shows or hides depend on \<open>currentStep\<close> and \<open>totalSteps\<close> alone
  and are not kept in the state.
\<close>

definition updateStepDisplay :: "page \<Rightarrow> page" where
  "updateStepDisplay s =
     s\<lparr>step_active := (case form_steps s (currentStep s) of
                          None \<Rightarrow> None | Some _ \<Rightarrow> Some (currentStep s))\<rparr>"

definition initializeMultiStepForm :: "page \<Rightarrow> page" where
  "initializeMultiStepForm s = updateStepDisplay (s\<lparr>currentStep := 1, totalSteps := 3\<rparr>)"

text \<open>
  A method that can end by an exception returns it beside the state it leaves: what was
  written before the \<open>throw\<close> stays written.
\<close>

definition nextStep :: "page \<Rightarrow> js_error option \<times> page" where
  "nextStep s =
     (let (ok, s1) = validateCurrentStep s in
      if \<not> ok then
        (case showNotification ''Please fix the errors before proceeding'' ''warning'' '''' s1 of
           Inl e \<Rightarrow> (Some e, s1)
         | Inr s2 \<Rightarrow> (None, s2))
      else if currentStep s1 < totalSteps s1 then
        (None, updateStepDisplay (s1\<lparr>currentStep := currentStep s1 + 1\<rparr>))
      else (None, s1))"

definition previousStep :: "page \<Rightarrow> page" where
  "previousStep s =
     (if 1 < currentStep s then updateStepDisplay (s\<lparr>currentStep := currentStep s - 1\<rparr>)
      else s)"

subsection \<open>\<open>resetForm\<close>\<close>

text \<open>
  \<open>form.reset()\<close> of the browser gives every control of the form its default value and
  empties the file input when it belongs to the form.
\<close>

definition form_reset :: "nat list \<Rightarrow> page \<Rightarrow> page" where
  "form_reset form s =
     s\<lparr>controls := (\<lambda>c. if c \<in> set form
                         then (controls s c)\<lparr>fvalue := fdefault (controls s c)\<rparr>
                         else controls s c),
       documents := (if documents_in_form s then map_option (\<lambda>_. []) (documents s)
                     else documents s)\<rparr>"

text \<open>
  \<open>resetForm\<close> does nothing on a page without the form. Otherwise it resets the form,
  goes back to step 1, empties the container of the selected files when the page has
  one, removes every \<open>.form-error\<close> in the form and takes the class \<open>error\<close> from the
  form's controls.
\<close>

definition resetForm :: "page \<Rightarrow> page" where
  "resetForm s =
     (case addActivityForm s of
        None \<Rightarrow> s
      | Some form \<Rightarrow>
          (let s1 = form_reset form s;
               s2 = updateStepDisplay (s1\<lparr>currentStep := 1\<rparr>);
               s3 = s2\<lparr>selectedFiles := map_option (\<lambda>_. []) (selectedFiles s2)\<rparr>;
               s4 = s3\<lparr>form_errors := (\<lambda>p. if inside_form s3 p then [] else form_errors s3 p)\<rparr>
           in s4\<lparr>error_class := (\<lambda>c. if c \<in> set form then False else error_class s4 c)\<rparr>))"

subsection \<open>Files (\<open>displaySelectedFiles\<close>, \<open>handleFileSelect\<close>, \<open>handleFileDrop\<close>, \<open>removeFile\<close>)\<close>

definition displaySelectedFiles :: "file_desc list \<Rightarrow> page \<Rightarrow> page" where
  "displaySelectedFiles files s =
     (case selectedFiles s of None \<Rightarrow> s | Some _ \<Rightarrow> s\<lparr>selectedFiles := Some files\<rparr>)"

text \<open>
  The \<open>change\<close> listener of the file input, which exists only on a page with that input:
  the browser has put the new selection in \<open>files\<close> and the handler displays it.
\<close>

definition handleFileSelect :: "page \<Rightarrow> page" where
  "handleFileSelect s =
     (case documents s of None \<Rightarrow> s | Some files \<Rightarrow> displaySelectedFiles files s)"

text \<open>
  \<open>handleFileDrop\<close> fills a fresh \<open>DataTransfer\<close> with the dropped files and assigns its
  list to the file input.
\<close>

definition handleFileDrop :: "file_desc list \<Rightarrow> page \<Rightarrow> js_error + page" where
  "handleFileDrop files s =
     (case documents s of
        None \<Rightarrow> Inl TypeError
      | Some _ \<Rightarrow> Inr (displaySelectedFiles files (s\<lparr>documents := Some files\<rparr>)))"

text \<open>
  \<open>removeFile(index)\<close> copies every file whose position \<open>i\<close> has \<open>i !== index\<close> to a fresh
  list, assigns it to the file input and displays it.
\<close>

definition removeFile :: "int \<Rightarrow> page \<Rightarrow> js_error + page" where
  "removeFile index s =
     (case documents s of
        None \<Rightarrow> Inl TypeError
      | Some files \<Rightarrow>
          (let kept = map snd (filter (\<lambda>(i, file). int i \<noteq> index) (enumerate 0 files))
           in Inr (displaySelectedFiles kept (s\<lparr>documents := Some kept\<rparr>))))"

subsection \<open>Submission (\<open>collectFormData\<close>, \<open>submitActivity\<close>, \<open>handleActivitySubmit\<close>)\<close>

text \<open>
  \<open>collectFormData\<close> reads the value of eleven elements by id and the files of
  \<open>#documents\<close>, none of them guarded: a missing element throws.
\<close>

fun read_parts :: "page \<Rightarrow> (string \<times> string) list \<Rightarrow> (string \<times> js_string) list option" where
  "read_parts s [] = Some []"
| "read_parts s ((key, elem) # rest) =
     (case element_ids s elem of
        None \<Rightarrow> None
      | Some c \<Rightarrow> map_option ((#) (key, fvalue (controls s c))) (read_parts s rest))"

definition payload_fields :: "(string \<times> string) list" where
  "payload_fields =
     [(''title'', ''activityTitle''), (''activityType'', ''activityType''),
      (''description'', ''activityDescription''), (''startDate'', ''startDate''),
      (''endDate'', ''endDate''), (''durationHours'', ''durationHours''),
      (''venue'', ''venue''), (''organizer'', ''organizer''),
      (''roleInActivity'', ''roleInActivity''), (''achievement'', ''achievement''),
      (''skillsGained'', ''skillsGained'')]"

definition collectFormData :: "page \<Rightarrow> js_error + form_data" where
  "collectFormData s =
     (case read_parts s payload_fields of
        None \<Rightarrow> Inl TypeError
      | Some parts \<Rightarrow>
          (case documents s of
             None \<Rightarrow> Inl TypeError
           | Some files \<Rightarrow> Inr \<lparr>fd_parts = parts, fd_documents = files\<rparr>))"

definition showLoading :: "page \<Rightarrow> page" where
  "showLoading s = s\<lparr>loadingOverlay := map_option (\<lambda>_. True) (loadingOverlay s)\<rparr>"

definition hideLoading :: "page \<Rightarrow> page" where
  "hideLoading s = s\<lparr>loadingOverlay := map_option (\<lambda>_. False) (loadingOverlay s)\<rparr>"

text \<open>
  \<open>Utils.makeRequest\<close> runs up to its \<open>await fetch(...)\<close> when it is called: the network
  call is made at once, and the caller waits for it to settle. The headers of the call
  are not kept.
\<close>

definition makeRequest :: "request \<Rightarrow> awaiting \<Rightarrow> page \<Rightarrow> page" where
  "makeRequest r k s = s\<lparr>requests := requests s @ [r], in_flight := in_flight s @ [k]\<rparr>"

text \<open>
  \<open>Utils.handleAuthError\<close> removes the stored token and user and sends the window to
  \<open>index.html\<close>.
\<close>

definition handleAuthError :: "page \<Rightarrow> page" where
  "handleAuthError s =
     s\<lparr>localStorage := (localStorage s)(''ssh_token'' := None, ''ssh_user'' := None),
       location_href := ''index.html''\<rparr>"

text \<open>A number in a template literal: its decimal digits.\<close>

fun Number_toString :: "nat \<Rightarrow> string" where
  "Number_toString n =
     (if n < 10 then [''0123456789'' ! n]
      else Number_toString (n div 10) @ [''0123456789'' ! (n mod 10)])"

text \<open>
  The rest of \<open>Utils.makeRequest\<close>, once \<open>fetch\<close> has settled: the parsed body, or the
  message of the error thrown. A failure of \<open>fetch\<close> is thrown on. Status 401 calls
  \<open>handleAuthError\<close> and throws "Authentication required". Any other status outside 200
  to 299 throws the \<open>message\<close> of the body, or \<open>HTTP\<close> and the status when the body has
  none or does not parse. Otherwise the parsed body is returned, and a body that does
  not parse throws.
\<close>

definition makeRequest_settled :: "outcome \<Rightarrow> page \<Rightarrow> (string + json_body) \<times> page" where
  "makeRequest_settled out s =
     (case out of
        Fetch_fails message \<Rightarrow> (Inl message, s)
      | Responds status parsed \<Rightarrow>
          if status = 401 then (Inl ''Authentication required'', handleAuthError s)
          else if \<not> (200 \<le> status \<and> status \<le> 299) then
            (Inl (case parsed of
                    Inl _ \<Rightarrow> ''HTTP '' @ Number_toString status
                  | Inr errorData \<Rightarrow>
                      if body_message errorData \<noteq> [] then body_message errorData
                      else ''HTTP '' @ Number_toString status), s)
          else (parsed, s))"

text \<open>
  \<open>handleActivitySubmit\<close> up to its \<open>await\<close>. A \<open>TypeError\<close> of \<open>collectFormData\<close> is
  thrown before the \<open>try\<close>: the handler ends there.
\<close>

definition handleActivitySubmit :: "page \<Rightarrow> page" where
  "handleActivitySubmit s =
     (let (ok, s1) = validateCurrentStep s in
      if \<not> ok then s1
      else
        case collectFormData s1 of
          Inl _ \<Rightarrow> s1
        | Inr formData \<Rightarrow>
            makeRequest (POST_activities formData) Submit_awaits (showLoading s1))"

text \<open>
  The \<open>catch\<close> block of \<open>handleActivitySubmit\<close> for an error with the given message,
  followed by the \<open>finally\<close> block. An exception of the \<open>catch\<close> block leaves the method
  after the \<open>finally\<close> block has run.
\<close>

definition handleActivitySubmit_catch :: "string \<Rightarrow> page \<Rightarrow> js_error option \<times> page" where
  "handleActivitySubmit_catch message s =
     (case showNotification (if message \<noteq> [] then message else ''Failed to submit activity'')
             ''error'' ''Submission Failed'' s of
        Inl e \<Rightarrow> (Some e, hideLoading s)
      | Inr s1 \<Rightarrow> (None, hideLoading s1))"

text \<open>
  The rest of \<open>handleActivitySubmit\<close> when the request is fulfilled. The toast comes
  first: when that call throws, the \<open>catch\<close> block runs and \<open>resetForm\<close> is not reached.
  After \<open>resetForm\<close> the method calls \<open>this.hideAddActivityModal()\<close>; the class has no such
  method (the function of that name is a global one), so the call throws a \<open>TypeError\<close>
  inside the \<open>try\<close>, \<open>refreshActivities\<close> is not reached, and the \<open>catch\<close> block runs. The
  messages of the two errors are the engine's.
\<close>

definition handleActivitySubmit_fulfilled :: "page \<Rightarrow> js_error option \<times> page" where
  "handleActivitySubmit_fulfilled s =
     (case showNotification
             ''Activity submitted successfully! It will be reviewed by your institution.''
             ''success'' ''Activity Submitted'' s of
        Inl e \<Rightarrow>
          handleActivitySubmit_catch ''NotificationManager.showNotification is not a function'' s
      | Inr s1 \<Rightarrow>
          handleActivitySubmit_catch ''this.hideAddActivityModal is not a function''
            (resetForm s1))"

text \<open>The rest of \<open>handleActivitySubmit\<close> when the request throws an error with a message.\<close>

definition handleActivitySubmit_rejected :: "string \<Rightarrow> page \<Rightarrow> js_error option \<times> page" where
  "handleActivitySubmit_rejected message s = handleActivitySubmit_catch message s"

subsection \<open>Loading the list (\<open>loadActivities\<close>, \<open>filterActivities\<close>, \<open>handleSearch\<close>)\<close>

text \<open>
  \<open>loadActivities\<close> up to its \<open>await\<close>. \<open>searchQuery\<close> is unset until the first search; unset
  and empty are both falsy, and the model has the empty string for both.
\<close>

definition loadActivities :: "page \<Rightarrow> page" where
  "loadActivities s =
     (if isLoading s then s
      else
        makeRequest
          (GET_activities (currentPage s) (itemsPerPage s)
             (if currentFilter s \<noteq> ''all'' then Some (currentFilter s) else None)
             (if searchQuery s \<noteq> [] then Some (searchQuery s) else None))
          Load_awaits (s\<lparr>isLoading := True\<rparr>))"

text \<open>
  The \<open>catch\<close> block of \<open>loadActivities\<close> followed by the \<open>finally\<close> block, which clears
  the flag also when the \<open>catch\<close> block throws.
\<close>

definition loadActivities_catch :: "page \<Rightarrow> js_error option \<times> page" where
  "loadActivities_catch s =
     (case showNotification ''Failed to load activities'' ''error'' '''' s of
        Inl e \<Rightarrow> (Some e, s\<lparr>isLoading := False\<rparr>)
      | Inr s1 \<Rightarrow> (None, s1\<lparr>isLoading := False\<rparr>))"

text \<open>
  The rest of \<open>loadActivities\<close>. When the request is fulfilled the list is stored and
  rendered, and then \<open>this.updatePagination\<close> is called, which the class does not define:
  the \<open>TypeError\<close> is caught by the same \<open>catch\<close> block as a failed request. The rendering
  of the grid is not kept in the state.
\<close>

definition loadActivities_fulfilled :: "nat list option \<Rightarrow> page \<Rightarrow> js_error option \<times> page" where
  "loadActivities_fulfilled acts s = loadActivities_catch (s\<lparr>activities := acts\<rparr>)"

definition loadActivities_rejected :: "page \<Rightarrow> js_error option \<times> page" where
  "loadActivities_rejected s = loadActivities_catch s"

definition filterActivities :: "string \<Rightarrow> page \<Rightarrow> page" where
  "filterActivities filter_name s =
     loadActivities (s\<lparr>currentFilter := filter_name, currentPage := 1\<rparr>)"

definition handleSearch :: "js_string \<Rightarrow> page \<Rightarrow> page" where
  "handleSearch q s = loadActivities (s\<lparr>searchQuery := q, currentPage := 1\<rparr>)"

definition refreshActivities :: "page \<Rightarrow> page" where
  "refreshActivities s = loadActivities s"

subsection \<open>The event loop\<close>

text \<open>
  Everything runs on one thread: a handler runs to its end or to its \<open>await\<close>, and a
  settled request resumes the method that waits for it. \<open>Settle i out\<close> settles the
  \<open>i\<close>-th call in flight. \<open>Input c v\<close> is the user changing control \<open>c\<close> to \<open>v\<close>, followed
  by the \<open>input\<close> listener; \<open>Blur c\<close> is the \<open>blur\<close> listener; both listeners are attached
  to the controls of the form only. An exception that leaves a handler ends it.
\<close>

datatype event =
  Submit
| NextStep
| PreviousStep
| Blur nat
| Input nat js_string
| DateChange
| FileSelect
| FileDrop "file_desc list"
| RemoveFile int
| Filter string
| Search js_string
| Refresh
| Settle nat outcome

definition is_form_control :: "page \<Rightarrow> nat \<Rightarrow> bool" where
  "is_form_control s c = (case addActivityForm s of None \<Rightarrow> False | Some form \<Rightarrow> c \<in> set form)"

definition resume :: "awaiting \<Rightarrow> outcome \<Rightarrow> page \<Rightarrow> js_error option \<times> page" where
  "resume k out s =
     (let (r, s1) = makeRequest_settled out s in
      case k of
        Submit_awaits \<Rightarrow>
          (case r of
             Inr _ \<Rightarrow> handleActivitySubmit_fulfilled s1
           | Inl message \<Rightarrow> handleActivitySubmit_rejected message s1)
      | Load_awaits \<Rightarrow>
          (case r of
             Inr response \<Rightarrow> loadActivities_fulfilled (body_activities response) s1
           | Inl _ \<Rightarrow> loadActivities_rejected s1))"

definition settle :: "nat \<Rightarrow> outcome \<Rightarrow> page \<Rightarrow> page" where
  "settle i out s =
     (if i < length (in_flight s)
      then snd (resume (in_flight s ! i) out
                  (s\<lparr>in_flight := take i (in_flight s) @ drop (Suc i) (in_flight s)\<rparr>))
      else s)"

fun dispatch :: "event \<Rightarrow> page \<Rightarrow> page" where
  "dispatch Submit s = handleActivitySubmit s"
| "dispatch NextStep s = snd (nextStep s)"
| "dispatch PreviousStep s = previousStep s"
| "dispatch (Blur c) s = (if is_form_control s c then snd (validateField c s) else s)"
| "dispatch (Input c v) s =
     (let s1 = s\<lparr>controls := (controls s)(c := (controls s c)\<lparr>fvalue := v\<rparr>)\<rparr>
      in if is_form_control s c then clearFieldError c s1 else s1)"
| "dispatch DateChange s = snd (validateDates s)"
| "dispatch FileSelect s = handleFileSelect s"
| "dispatch (FileDrop files) s = (case handleFileDrop files s of Inl _ \<Rightarrow> s | Inr s1 \<Rightarrow> s1)"
| "dispatch (RemoveFile index) s = (case removeFile index s of Inl _ \<Rightarrow> s | Inr s1 \<Rightarrow> s1)"
| "dispatch (Filter filter_name) s = filterActivities filter_name s"
| "dispatch (Search q) s = handleSearch q s"
| "dispatch Refresh s = refreshActivities s"
| "dispatch (Settle i out) s = settle i out s"

definition run :: "event list \<Rightarrow> page \<Rightarrow> page" where
  "run events s = foldl (\<lambda>s1 e. dispatch e s1) s events"

section \<open>The \<open>PortfolioManager\<close> instance (\<open>generatePortfolio\<close>)\<close>

text \<open>
  The flag of the object, what \<open>NotificationManager\<close> denotes on its page, the toasts it
  shows and the calls to \<open>POST /portfolio/generate\<close> it makes, each with its \<open>template\<close>
  and \<open>include_activities\<close>.
\<close>

record portfolio =
  isGenerating :: bool
  portfolio_binding :: global_binding
  portfolio_toasts :: "notification list"
  portfolio_requests :: "(string \<times> nat list option) list"

text \<open>
  \<open>generatePortfolio\<close> up to its \<open>await\<close>. With the flag set it warns and returns. Otherwise
  it sets the flag and calls \<open>NotificationManager.showLoadingNotification\<close>, a method of
  instances like \<open>showNotification\<close>: on the class the call throws, the toast of the
  \<open>catch\<close> block throws again, and the \<open>finally\<close> block clears the flag before any request
  is made. On the instance the loading toast is shown and the request is made.
\<close>

definition generatePortfolio ::
  "string \<Rightarrow> nat list option \<Rightarrow> portfolio \<Rightarrow> js_error option \<times> portfolio" where
  "generatePortfolio template includeActivities p =
     (if isGenerating p then
        (case portfolio_binding p of
           The_class \<Rightarrow> (Some TypeError, p)
         | The_instance \<Rightarrow>
             (None, p\<lparr>portfolio_toasts := portfolio_toasts p
                        @ [Notification ''Portfolio generation already in progress''
                             ''warning'' '''']\<rparr>))
      else
        (case portfolio_binding p of
           The_class \<Rightarrow> (Some TypeError, p\<lparr>isGenerating := False\<rparr>)
         | The_instance \<Rightarrow>
             (None, p\<lparr>isGenerating := True,
                      portfolio_toasts := portfolio_toasts p
                        @ [Notification ''Preparing your portfolio data...'' ''info'' ''Loading''],
                      portfolio_requests := portfolio_requests p
                        @ [(template, includeActivities)]\<rparr>)))"

section \<open>Notions the properties are stated with\<close>

text \<open>The invariant of the step counter.\<close>

definition step_invariant :: "page \<Rightarrow> bool" where
  "step_invariant s = (1 \<le> currentStep s \<and> currentStep s \<le> totalSteps s)"

text \<open>A control passes its field rules.\<close>

definition field_ok :: "control \<Rightarrow> bool" where
  "field_ok field = fst (field_rules field)"

text \<open>
  The date rule of step 2 passes: the page has both date elements and it is not the
  case that both hold a value and the end lies before the start.
\<close>

definition dates_ok :: "page \<Rightarrow> bool" where
  "dates_ok s =
     (case (element_ids s ''startDate'', element_ids s ''endDate'') of
        (Some startDate, Some endDate) \<Rightarrow>
          \<not> (fvalue (controls s startDate) \<noteq> [] \<and> fvalue (controls s endDate) \<noteq> []
             \<and> date_less (new_Date s (fvalue (controls s endDate)))
                          (new_Date s (fvalue (controls s startDate))))
      | _ \<Rightarrow> False)"

text \<open>
  The current step passes validation: each of its fields passes its rules and, on
  step 2, the date rule passes. A step whose element the page lacks has no field.
\<close>

definition step_ok :: "page \<Rightarrow> bool" where
  "step_ok s =
     (case form_steps s (currentStep s) of
        None \<Rightarrow> True
      | Some step_fields \<Rightarrow>
          list_all (\<lambda>c. field_ok (controls s c)) step_fields
          \<and> (if currentStep s = 2 then dates_ok s else True))"

text \<open>No element carries more than one error marker.\<close>

definition markers_ok :: "page \<Rightarrow> bool" where
  "markers_ok s = (\<forall>p. length (form_errors s p) \<le> 1)"

text \<open>
  The rule for \<open>durationHours\<close> in the words of the specification, "numeric and at least
  1": the value converts to a number and that number is not below 1.
\<close>

definition spec_duration_ok :: "js_string \<Rightarrow> bool" where
  "spec_duration_ok v =
     (case StringToNumber v of
        NaN \<Rightarrow> False
      | PosInfinity \<Rightarrow> True
      | NegInfinity \<Rightarrow> False
      | Finite r \<Rightarrow> 1 \<le> r)"

text \<open>
  A number in plain decimal notation, as a user types a count of hours: an optional
  sign, digits, and optionally a point followed by at most 15 digits. With so few
  digits behind the point a value below 1 stays below 1 when the Number is rounded to a
  double.
\<close>

definition plain_decimal :: "js_string \<Rightarrow> bool" where
  "plain_decimal v =
     (let u = (case v of [] \<Rightarrow> [] | c # r \<Rightarrow> if c = 43 \<or> c = 45 then r else v);
          r = dropWhile is_digit u
      in takeWhile is_digit u \<noteq> []
         \<and> (case r of
               [] \<Rightarrow> True
             | c # fp \<Rightarrow> c = 46 \<and> list_all is_digit fp \<and> length fp \<le> 15))"

text \<open>
  A field whose \<open>durationHours\<close> is written so: empty, not numeric at all, or a plain
  decimal.
\<close>

definition written_plainly :: "control \<Rightarrow> bool" where
  "written_plainly field =
     (fname field = ''durationHours''
      \<longrightarrow> trim (fvalue field) = [] \<or> isNaN (trim (fvalue field))
          \<or> plain_decimal (trim (fvalue field)))"

text \<open>
  The rule table in the words of the specification. The specific rule of a field goes
  by its name: a title has length at least 3, a description length at least 10 (the
  length of a string counts its code units), a \<open>durationHours\<close> is numeric and at least
  1; a field of another name has no specific rule.
\<close>

definition spec_specific_rule :: "control \<Rightarrow> bool" where
  "spec_specific_rule field =
     (if fname field = ''title'' then 3 \<le> length (trim (fvalue field))
      else if fname field = ''description'' then 10 \<le> length (trim (fvalue field))
      else if fname field = ''durationHours'' then spec_duration_ok (trim (fvalue field))
      else True)"

text \<open>
  A field passes the table: a required one is not empty after trimming, and one that
  is not empty passes its specific rule.
\<close>

definition spec_table_ok :: "control \<Rightarrow> bool" where
  "spec_table_ok field =
     ((frequired field \<longrightarrow> trim (fvalue field) \<noteq> [])
      \<and> (trim (fvalue field) \<noteq> [] \<longrightarrow> spec_specific_rule field))"

text \<open>
  "Every required field of the step is non-empty and passes its specific rule", on the
  current step.
\<close>

definition spec_required_fields_ok :: "page \<Rightarrow> bool" where
  "spec_required_fields_ok s =
     (case form_steps s (currentStep s) of
        None \<Rightarrow> True
      | Some step_fields \<Rightarrow>
          list_all (\<lambda>c. frequired (controls s c)
                         \<longrightarrow> trim (fvalue (controls s c)) \<noteq> []
                             \<and> spec_specific_rule (controls s c)) step_fields)"

text \<open>The cross-field rule: the end date is not before the start date when both are present.\<close>

definition spec_dates_ok :: "page \<Rightarrow> bool" where
  "spec_dates_ok s =
     (case (element_ids s ''startDate'', element_ids s ''endDate'') of
        (Some startDate, Some endDate) \<Rightarrow>
          fvalue (controls s startDate) \<noteq> [] \<and> fvalue (controls s endDate) \<noteq> []
          \<longrightarrow> \<not> date_less (new_Date s (fvalue (controls s endDate)))
                           (new_Date s (fvalue (controls s startDate)))
      | _ \<Rightarrow> True)"

text \<open>
  \<open>validateStep\<close> of the specification, on the current step: every field of the step
  passes the table and, on step 2, the cross-field rule holds.
\<close>

definition spec_validateStep :: "page \<Rightarrow> bool" where
  "spec_validateStep s =
     (case form_steps s (currentStep s) of
        None \<Rightarrow> True
      | Some step_fields \<Rightarrow>
          list_all (\<lambda>c. spec_table_ok (controls s c)) step_fields
          \<and> (currentStep s = 2 \<longrightarrow> spec_dates_ok s))"

text \<open>
  A page on which the program's validation can be compared with the table: the fields
  of the current step are written plainly, and a page on step 2 has the two date
  inputs (without them \<open>validateDates\<close> returns \<open>undefined\<close>, which counts as a failure).
\<close>

definition plainly_filled :: "page \<Rightarrow> bool" where
  "plainly_filled s =
     ((case form_steps s (currentStep s) of
         None \<Rightarrow> True
       | Some step_fields \<Rightarrow> list_all (\<lambda>c. written_plainly (controls s c)) step_fields)
      \<and> (currentStep s = 2
          \<longrightarrow> element_ids s ''startDate'' \<noteq> None \<and> element_ids s ''endDate'' \<noteq> None))"

text \<open>Two states that differ at most in the error markers.\<close>

definition same_but_errors :: "page \<Rightarrow> page \<Rightarrow> bool" where
  "same_but_errors s t = (\<exists>e m. t = s\<lparr>error_class := e, form_errors := m\<rparr>)"

text \<open>
  The flag \<open>isLoading\<close> is set exactly while one call of \<open>loadActivities\<close> waits for its
  request.
\<close>

definition loading_invariant :: "page \<Rightarrow> bool" where
  "loading_invariant s =
     (count_list (in_flight s) Load_awaits = (if isLoading s then 1 else 0))"

text \<open>A call of \<open>POST /activities\<close>.\<close>

fun is_POST_activities :: "request \<Rightarrow> bool" where
  "is_POST_activities (POST_activities _) = True"
| "is_POST_activities (GET_activities _ _ _ _) = False"

text \<open>
  Two states that differ at most in the error markers, carry at most one marker per
  element, and have the same markers on the controls \<open>F\<close> and the elements \<open>P\<close>.
\<close>

definition agree :: "nat set \<Rightarrow> nat set \<Rightarrow> page \<Rightarrow> page \<Rightarrow> bool" where
  "agree F P s t =
     (same_but_errors s t \<and> markers_ok s \<and> markers_ok t
      \<and> (\<forall>f\<in>F. error_class s f = error_class t f)
      \<and> (\<forall>p\<in>P. form_errors s p = form_errors t p))"

text \<open>State \<open>t\<close> is state \<open>s\<close> but for the markers on the controls \<open>F\<close> and the elements \<open>P\<close>.\<close>

definition untouched :: "nat set \<Rightarrow> nat set \<Rightarrow> page \<Rightarrow> page \<Rightarrow> bool" where
  "untouched F P s t =
     (same_but_errors s t
      \<and> (\<forall>f. f \<notin> F \<longrightarrow> error_class t f = error_class s f)
      \<and> (\<forall>p. p \<notin> P \<longrightarrow> form_errors t p = form_errors s p))"

text \<open>The control \<open>validateDates\<close> writes a marker on, if any.\<close>

definition date_writes :: "page \<Rightarrow> nat set" where
  "date_writes s =
     (case (element_ids s ''startDate'', element_ids s ''endDate'') of
        (Some startDate, Some endDate) \<Rightarrow>
          if fvalue (controls s startDate) \<noteq> [] \<and> fvalue (controls s endDate) \<noteq> []
          then {endDate} else {}
      | _ \<Rightarrow> {})"

text \<open>The controls \<open>validateCurrentStep\<close> writes markers on.\<close>

definition step_writes :: "page \<Rightarrow> nat set" where
  "step_writes s =
     (case form_steps s (currentStep s) of
        None \<Rightarrow> {}
      | Some step_fields \<Rightarrow>
          set step_fields \<union> (if currentStep s = 2 then date_writes s else {}))"

subsection \<open>A page to run the program on\<close>

text \<open>
  The form with its eleven fields in three steps, each field in a group of its own
  (control \<open>c\<close> under element \<open>100 + c\<close>), filled in and standing on the last step.
\<close>

definition example_controls :: "control list" where
  "example_controls =
     [\<lparr>fname = ''title'', fvalue = js ''Robotics workshop'', fdefault = [],
        frequired = True, fparent = 100\<rparr>,
      \<lparr>fname = ''activityType'', fvalue = js ''technical'', fdefault = [],
        frequired = True, fparent = 101\<rparr>,
      \<lparr>fname = ''description'', fvalue = js ''Built a line follower'', fdefault = [],
        frequired = True, fparent = 102\<rparr>,
      \<lparr>fname = ''startDate'', fvalue = js ''2025-03-10'', fdefault = [],
        frequired = True, fparent = 103\<rparr>,
      \<lparr>fname = ''endDate'', fvalue = js ''2025-03-15'', fdefault = [],
        frequired = False, fparent = 104\<rparr>,
      \<lparr>fname = ''durationHours'', fvalue = js ''3'', fdefault = [],
        frequired = False, fparent = 105\<rparr>,
      \<lparr>fname = ''venue'', fvalue = js ''Lab 2'', fdefault = [],
        frequired = False, fparent = 106\<rparr>,
      \<lparr>fname = ''organizer'', fvalue = js ''IEEE'', fdefault = [],
        frequired = False, fparent = 107\<rparr>,
      \<lparr>fname = ''roleInActivity'', fvalue = js ''Participant'', fdefault = [],
        frequired = False, fparent = 108\<rparr>,
      \<lparr>fname = ''achievement'', fvalue = js ''First prize'', fdefault = [],
        frequired = False, fparent = 109\<rparr>,
      \<lparr>fname = ''skillsGained'', fvalue = js ''Soldering'', fdefault = [],
        frequired = False, fparent = 110\<rparr>]"

definition no_control :: control where
  "no_control = \<lparr>fname = '''', fvalue = [], fdefault = [], frequired = False, fparent = 0\<rparr>"

definition example_page :: page where
  "example_page =
     \<lparr>currentStep = 3, totalSteps = 3, isLoading = False, activities = Some [],
      currentFilter = ''all'', currentPage = 1, itemsPerPage = 12, searchQuery = [],
      controls = (\<lambda>c. if c < 11 then example_controls ! c else no_control),
      error_class = (\<lambda>_. False),
      form_errors = (\<lambda>_. []),
      form_steps = (\<lambda>n. if n = 1 then Some [0, 1, 2]
                         else if n = 2 then Some [3, 4, 5, 6, 7, 8]
                         else if n = 3 then Some [9, 10] else None),
      step_active = Some 3,
      addActivityForm = Some [0, 1, 2, 3, 4, 5, 6, 7, 8, 9, 10],
      inside_form = (\<lambda>p. 100 \<le> p \<and> p \<le> 110),
      element_ids = map_of [(''activityTitle'', 0), (''activityType'', 1),
                            (''activityDescription'', 2), (''startDate'', 3),
                            (''endDate'', 4), (''durationHours'', 5), (''venue'', 6),
                            (''organizer'', 7), (''roleInActivity'', 8),
                            (''achievement'', 9), (''skillsGained'', 10)],
      documents = Some [], documents_in_form = True, selectedFiles = Some [],
      loadingOverlay = Some False, toasts = [], requests = [], in_flight = [],
      browser_Date_parse = (\<lambda>_. None),
      NotificationManager_binding = The_class,
      localStorage = map_of [(''ssh_token'', js ''token''), (''ssh_user'', js ''{}'')],
      location_href = ''activities.html''\<rparr>"

text \<open>Three files to select.\<close>

definition example_file :: "string \<Rightarrow> file_desc" where
  "example_file n = \<lparr>file_name = js n, file_size = 1024, file_type = js ''application/pdf''\<rparr>"

text \<open>The example page with control \<open>c\<close> holding the value \<open>v\<close>.\<close>

definition example_page_with :: "nat \<Rightarrow> string \<Rightarrow> page" where
  "example_page_with c v =
     example_page\<lparr>controls := (controls example_page)(c := (controls example_page c)\<lparr>fvalue := js v\<rparr>)\<rparr>"

text \<open>A page put on step \<open>n\<close>, as the navigation leaves it.\<close>

definition on_step :: "int \<Rightarrow> page \<Rightarrow> page" where
  "on_step n s = updateStepDisplay (s\<lparr>currentStep := n\<rparr>)"

text \<open>
  The example page after a file has been dropped on it and the form submitted, and a
  response that reports the activity created.
\<close>

definition submitted_page :: page where
  "submitted_page = run [FileDrop [example_file ''a.pdf''], Submit] example_page"

definition created :: outcome where
  "created = Responds 201 (Inr \<lparr>body_message = [], body_activities = None\<rparr>)"

section \<open>Properties\<close>

subsection \<open>Validation writes error markers and nothing else\<close>

lemma same_but_errors_refl: "same_but_errors s s"
  unfolding same_but_errors_def
  by (rule exI[of _ "error_class s"], rule exI[of _ "form_errors s"]) simp

lemma same_but_errors_trans:
  assumes "same_but_errors s t" and "same_but_errors t u"
  shows "same_but_errors s u"
proof -
  from assms(1) obtain e m where t: "t = s\<lparr>error_class := e, form_errors := m\<rparr>"
    unfolding same_but_errors_def by blast
  from assms(2) obtain e' m' where u: "u = t\<lparr>error_class := e', form_errors := m'\<rparr>"
    unfolding same_but_errors_def by blast
  have "u = s\<lparr>error_class := e', form_errors := m'\<rparr>"
    unfolding u t by simp
  then show ?thesis unfolding same_but_errors_def by blast
qed

lemma same_but_errors_fields:
  assumes "same_but_errors s t"
  shows "currentStep t = currentStep s" "totalSteps t = totalSteps s"
    "isLoading t = isLoading s" "activities t = activities s"
    "currentFilter t = currentFilter s" "currentPage t = currentPage s"
    "itemsPerPage t = itemsPerPage s" "searchQuery t = searchQuery s"
    "controls t = controls s" "form_steps t = form_steps s"
    "step_active t = step_active s" "addActivityForm t = addActivityForm s"
    "inside_form t = inside_form s" "element_ids t = element_ids s"
    "documents t = documents s" "documents_in_form t = documents_in_form s"
    "selectedFiles t = selectedFiles s" "loadingOverlay t = loadingOverlay s"
    "toasts t = toasts s" "requests t = requests s" "in_flight t = in_flight s"
    "browser_Date_parse t = browser_Date_parse s"
    "NotificationManager_binding t = NotificationManager_binding s"
    "localStorage t = localStorage s" "location_href t = location_href s"
proof -
  from assms obtain e m where t: "t = s\<lparr>error_class := e, form_errors := m\<rparr>"
    unfolding same_but_errors_def by blast
  show "currentStep t = currentStep s" "totalSteps t = totalSteps s"
    "isLoading t = isLoading s" "activities t = activities s"
    "currentFilter t = currentFilter s" "currentPage t = currentPage s"
    "itemsPerPage t = itemsPerPage s" "searchQuery t = searchQuery s"
    "controls t = controls s" "form_steps t = form_steps s"
    "step_active t = step_active s" "addActivityForm t = addActivityForm s"
    "inside_form t = inside_form s" "element_ids t = element_ids s"
    "documents t = documents s" "documents_in_form t = documents_in_form s"
    "selectedFiles t = selectedFiles s" "loadingOverlay t = loadingOverlay s"
    "toasts t = toasts s" "requests t = requests s" "in_flight t = in_flight s"
    "browser_Date_parse t = browser_Date_parse s"
    "NotificationManager_binding t = NotificationManager_binding s"
    "localStorage t = localStorage s" "location_href t = location_href s"
    unfolding t by simp_all
qed

lemma same_but_errorsI: "t = s\<lparr>error_class := e, form_errors := m\<rparr> \<Longrightarrow> same_but_errors s t"
  unfolding same_but_errors_def by blast

lemma clearFieldError_same: "same_but_errors s (clearFieldError f s)"
  by (rule same_but_errorsI) (simp add: clearFieldError_def Let_def)

lemma showFieldError_same: "same_but_errors s (showFieldError f m s)"
  by (rule same_but_errorsI) (simp add: showFieldError_def Let_def)

lemma validateField_same: "same_but_errors s (snd (validateField f s))"
  by (auto simp: validateField_def Let_def split_def clearFieldError_same
      intro: same_but_errors_trans[OF clearFieldError_same showFieldError_same])

lemma validateDates_same: "same_but_errors s (snd (validateDates s))"
  by (simp add: validateDates_def Let_def same_but_errors_refl clearFieldError_same
      showFieldError_same split: option.split)

lemma validate_fields_same: "same_but_errors s (snd (validate_fields fs b s))"
proof (induction fs arbitrary: b s)
  case Nil
  show ?case by (simp add: same_but_errors_refl)
next
  case (Cons f fs)
  have "same_but_errors s (snd (validateField f s))" by (rule validateField_same)
  moreover have "same_but_errors (snd (validateField f s))
      (snd (validate_fields fs (if \<not> fst (validateField f s) then False else b) (snd (validateField f s))))"
    by (rule Cons.IH)
  ultimately have "same_but_errors s
      (snd (validate_fields fs (if \<not> fst (validateField f s) then False else b) (snd (validateField f s))))"
    by (rule same_but_errors_trans)
  then show ?case by (simp add: split_def Let_def)
qed

lemma validateCurrentStep_same: "same_but_errors s (snd (validateCurrentStep s))"
proof (cases "form_steps s (currentStep s)")
  case None
  then show ?thesis by (simp add: validateCurrentStep_def same_but_errors_refl)
next
  case (Some fs)
  let ?s1 = "snd (validate_fields fs True s)"
  have 1: "same_but_errors s ?s1" by (rule validate_fields_same)
  have 2: "same_but_errors ?s1 (snd (validateDates ?s1))" by (rule validateDates_same)
  show ?thesis
  proof (cases "currentStep s = 2")
    case True
    with Some show ?thesis
      using same_but_errors_trans[OF 1 2] by (simp add: validateCurrentStep_def split_def Let_def)
  next
    case False
    with Some 1 show ?thesis by (simp add: validateCurrentStep_def split_def Let_def)
  qed
qed

lemmas validateCurrentStep_keeps = same_but_errors_fields[OF validateCurrentStep_same]
lemmas validateField_keeps = same_but_errors_fields[OF validateField_same]
lemmas validateDates_keeps = same_but_errors_fields[OF validateDates_same]
lemmas validate_fields_keeps = same_but_errors_fields[OF validate_fields_same]

subsection \<open>What validation returns\<close>

lemma validateField_result: "fst (validateField f s) = field_ok (controls s f)"
  by (simp add: validateField_def field_ok_def Let_def split_def)

lemma validate_fields_result:
  "fst (validate_fields fs b s) = (b \<and> list_all (\<lambda>c. field_ok (controls s c)) fs)"
proof (induction fs arbitrary: b s)
  case Nil
  show ?case by simp
next
  case (Cons f fs)
  show ?case
    by (simp add: split_def Let_def Cons.IH validateField_result validateField_keeps)
qed

lemma validateDates_result: "(fst (validateDates s) = Some True) = dates_ok s"
  by (simp add: validateDates_def dates_ok_def Let_def split: option.split)

lemma dates_ok_cong:
  assumes "same_but_errors s t"
  shows "dates_ok t = dates_ok s"
  unfolding dates_ok_def new_Date_def same_but_errors_fields[OF assms] ..

lemma validateCurrentStep_result: "fst (validateCurrentStep s) = step_ok s"
proof (cases "form_steps s (currentStep s)")
  case None
  then show ?thesis by (simp add: validateCurrentStep_def step_ok_def)
next
  case (Some fs)
  have d: "dates_ok (snd (validate_fields fs True s)) = dates_ok s"
    by (rule dates_ok_cong[OF validate_fields_same])
  show ?thesis
    using Some d validateDates_result[of "snd (validate_fields fs True s)"]
    by (auto simp: validateCurrentStep_def step_ok_def split_def Let_def validate_fields_result)
qed

subsection \<open>Navigation\<close>

lemma nextStep_currentStep:
  "currentStep (snd (nextStep s)) =
     (if fst (validateCurrentStep s) \<and> currentStep s < totalSteps s
      then currentStep s + 1 else currentStep s)"
  by (simp add: nextStep_def split_def Let_def showNotification_def updateStepDisplay_def
      validateCurrentStep_keeps split: global_binding.split)

lemma nextStep_totalSteps: "totalSteps (snd (nextStep s)) = totalSteps s"
  by (simp add: nextStep_def split_def Let_def showNotification_def updateStepDisplay_def
      validateCurrentStep_keeps split: global_binding.split)

subsection \<open>The step counter under every operation\<close>

lemma previousStep_steps:
  "totalSteps (previousStep s) = totalSteps s"
  "currentStep (previousStep s) = (if 1 < currentStep s then currentStep s - 1 else currentStep s)"
  by (simp_all add: previousStep_def updateStepDisplay_def)

lemma resetForm_steps:
  "totalSteps (resetForm s) = totalSteps s"
  "currentStep (resetForm s) = (if addActivityForm s = None then currentStep s else 1)"
  by (simp_all add: resetForm_def form_reset_def updateStepDisplay_def Let_def split: option.split)

lemma loadActivities_steps:
  "totalSteps (loadActivities s) = totalSteps s"
  "currentStep (loadActivities s) = currentStep s"
  by (simp_all add: loadActivities_def makeRequest_def)

lemma handleActivitySubmit_steps:
  "totalSteps (handleActivitySubmit s) = totalSteps s"
  "currentStep (handleActivitySubmit s) = currentStep s"
  by (simp_all add: handleActivitySubmit_def split_def Let_def makeRequest_def showLoading_def
      validateCurrentStep_keeps split: sum.split)

lemma makeRequest_settled_steps:
  "totalSteps (snd (makeRequest_settled out s)) = totalSteps s"
  "currentStep (snd (makeRequest_settled out s)) = currentStep s"
  by (simp_all add: makeRequest_settled_def handleAuthError_def split: outcome.split)

lemma handleActivitySubmit_catch_steps:
  "totalSteps (snd (handleActivitySubmit_catch message s)) = totalSteps s"
  "currentStep (snd (handleActivitySubmit_catch message s)) = currentStep s"
  by (simp_all add: handleActivitySubmit_catch_def showNotification_def hideLoading_def
      split: global_binding.split)

lemma loadActivities_catch_steps:
  "totalSteps (snd (loadActivities_catch s)) = totalSteps s"
  "currentStep (snd (loadActivities_catch s)) = currentStep s"
  by (simp_all add: loadActivities_catch_def showNotification_def split: global_binding.split)

lemma resume_steps:
  "totalSteps (snd (resume k out s)) = totalSteps s"
  "currentStep (snd (resume k out s)) = currentStep s \<or> currentStep (snd (resume k out s)) = 1"
  by (auto simp: resume_def split_def Let_def handleActivitySubmit_fulfilled_def
      handleActivitySubmit_rejected_def loadActivities_fulfilled_def loadActivities_rejected_def
      showNotification_def resetForm_steps makeRequest_settled_steps
      handleActivitySubmit_catch_steps loadActivities_catch_steps
      split: awaiting.split sum.split global_binding.split)

lemma file_ops_steps:
  "handleFileDrop files s = Inr t \<Longrightarrow> totalSteps t = totalSteps s \<and> currentStep t = currentStep s"
  "removeFile index s = Inr t \<Longrightarrow> totalSteps t = totalSteps s \<and> currentStep t = currentStep s"
  "totalSteps (handleFileSelect s) = totalSteps s \<and> currentStep (handleFileSelect s) = currentStep s"
  by (auto simp: handleFileDrop_def removeFile_def handleFileSelect_def displaySelectedFiles_def
      Let_def split: option.splits)

lemma dispatch_totalSteps: "totalSteps (dispatch e s) = totalSteps s"
proof (cases e)
  case (Settle i out)
  then show ?thesis by (simp add: settle_def resume_steps)
qed (auto simp: nextStep_totalSteps previousStep_steps handleActivitySubmit_steps
      validateField_keeps validateDates_keeps clearFieldError_def Let_def
      filterActivities_def handleSearch_def refreshActivities_def loadActivities_steps
      file_ops_steps split: sum.split)

lemma dispatch_currentStep:
  "currentStep (dispatch e s) = currentStep s
   \<or> currentStep (dispatch e s) = 1
   \<or> (currentStep (dispatch e s) = currentStep s + 1 \<and> currentStep s < totalSteps s)
   \<or> (currentStep (dispatch e s) = currentStep s - 1 \<and> 1 < currentStep s)"
proof (cases e)
  case (Settle i out)
  then show ?thesis
    using resume_steps(2)[of "in_flight s ! i" out
        "s\<lparr>in_flight := take i (in_flight s) @ drop (Suc i) (in_flight s)\<rparr>"]
    by (auto simp: settle_def)
qed (auto simp: nextStep_currentStep previousStep_steps handleActivitySubmit_steps
      validateField_keeps validateDates_keeps clearFieldError_def Let_def
      filterActivities_def handleSearch_def refreshActivities_def loadActivities_steps
      file_ops_steps split: sum.split)

lemma dispatch_step_invariant: "step_invariant s \<Longrightarrow> step_invariant (dispatch e s)"
  using dispatch_currentStep[of e s] dispatch_totalSteps[of e s]
  unfolding step_invariant_def by auto

lemma run_step_invariant: "step_invariant s \<Longrightarrow> step_invariant (run events s)"
  unfolding run_def by (induction events arbitrary: s) (simp_all add: dispatch_step_invariant)

lemma initializeMultiStepForm_steps:
  "currentStep (initializeMultiStepForm s) = 1" "totalSteps (initializeMultiStepForm s) = 3"
  by (simp_all add: initializeMultiStepForm_def updateStepDisplay_def)

text \<open>
  C4: \<open>1 \<le> currentStep \<le> totalSteps\<close> holds at all times. \<open>initializeMultiStepForm\<close>
  starts at step 1 of 3, and the invariant holds after every sequence of events, and
  after \<open>nextStep\<close>, \<open>previousStep\<close> and \<open>resetForm\<close> from any state so reached.
\<close>

theorem step_invariant_always:
  "currentStep (initializeMultiStepForm s) = 1
   \<and> totalSteps (initializeMultiStepForm s) = 3
   \<and> step_invariant (run events (initializeMultiStepForm s))
   \<and> step_invariant (snd (nextStep (run events (initializeMultiStepForm s))))
   \<and> step_invariant (previousStep (run events (initializeMultiStepForm s)))
   \<and> step_invariant (resetForm (run events (initializeMultiStepForm s)))"
proof -
  let ?r = "run events (initializeMultiStepForm s)"
  have "step_invariant (initializeMultiStepForm s)"
    by (simp add: step_invariant_def initializeMultiStepForm_steps)
  then have r: "step_invariant ?r" by (rule run_step_invariant)
  have n: "step_invariant (snd (nextStep ?r))"
    using dispatch_step_invariant[OF r, of NextStep] by simp
  have p: "step_invariant (previousStep ?r)"
    using dispatch_step_invariant[OF r, of PreviousStep] by simp
  have f: "step_invariant (resetForm ?r)"
    using r by (auto simp: step_invariant_def resetForm_steps)
  show ?thesis using r n p f by (simp add: initializeMultiStepForm_steps)
qed

subsection \<open>The file list\<close>

lemma kept_enumerate:
  "map snd (filter (\<lambda>(i, file). i \<noteq> k) (enumerate n files)) =
     (if n \<le> k \<and> k < n + length files
      then take (k - n) files @ drop (Suc (k - n)) files else files)"
proof (induction files arbitrary: n)
  case Nil
  show ?case by simp
next
  case (Cons f files)
  show ?case
  proof (cases "k = n")
    case True
    then show ?thesis using Cons.IH[of "Suc n"] by simp
  next
    case False
    have "k - n = Suc (k - Suc n)" if "Suc n \<le> k" using that by simp
    then show ?thesis using False Cons.IH[of "Suc n"] by auto
  qed
qed

lemma kept_files:
  "map snd (filter (\<lambda>(i, file). int i \<noteq> index) (enumerate 0 files)) =
     (if 0 \<le> index \<and> index < int (length files)
      then take (nat index) files @ drop (Suc (nat index)) files else files)"
proof (cases "0 \<le> index")
  case True
  then have "(\<lambda>(i, file::'a). int i \<noteq> index) = (\<lambda>(i, file). i \<noteq> nat index)"
    by (auto simp: fun_eq_iff)
  then show ?thesis using True kept_enumerate[of "nat index" 0 files] by auto
next
  case False
  then have "filter (\<lambda>(i, file::'a). int i \<noteq> index) (enumerate 0 files) = enumerate 0 files"
    by (auto simp: filter_id_conv)
  then show ?thesis using False by simp
qed

text \<open>
  C9: for an index outside the file list (negative or at least its length),
  \<open>removeFile\<close> throws nothing and leaves the files of the file input as they are; it
  only displays the same list again.
\<close>

theorem removeFile_out_of_range:
  assumes "documents s = Some files" and "index < 0 \<or> int (length files) \<le> index"
  shows "removeFile index s = Inr (displaySelectedFiles files s)
         \<and> documents (displaySelectedFiles files s) = Some files
         \<and> dispatch (RemoveFile index) s = displaySelectedFiles files s"
proof -
  have k: "map snd (filter (\<lambda>(i, file). int i \<noteq> index) (enumerate 0 files)) = files"
    using assms(2) by (auto simp: kept_files)
  have s: "s\<lparr>documents := Some files\<rparr> = s"
    using assms(1) by (simp add: assms(1)[symmetric])
  have r: "removeFile index s = Inr (displaySelectedFiles files s)"
    by (simp add: removeFile_def assms(1) k s)
  moreover have "documents (displaySelectedFiles files s) = Some files"
    using assms(1) by (simp add: displaySelectedFiles_def split: option.split)
  ultimately show ?thesis by simp
qed

theorem removeFile_out_of_range_witness:
  "removeFile 5 (example_page\<lparr>documents := Some [example_file ''a.pdf'']\<rparr>)
     = Inr (example_page\<lparr>documents := Some [example_file ''a.pdf''],
                          selectedFiles := Some [example_file ''a.pdf'']\<rparr>)
   \<and> removeFile (- 1) (example_page\<lparr>documents := Some [example_file ''a.pdf'']\<rparr>)
     = Inr (example_page\<lparr>documents := Some [example_file ''a.pdf''],
                          selectedFiles := Some [example_file ''a.pdf'']\<rparr>)"
  using removeFile_out_of_range
          [of "example_page\<lparr>documents := Some [example_file ''a.pdf'']\<rparr>"
              "[example_file ''a.pdf'']" 5]
        removeFile_out_of_range
          [of "example_page\<lparr>documents := Some [example_file ''a.pdf'']\<rparr>"
              "[example_file ''a.pdf'']" "- 1"]
  by (simp add: displaySelectedFiles_def example_page_def)

text \<open>
  C8, as the specification states it, fails: dropping files does not append them to
  the list the file input holds. With \<open>a.pdf\<close> selected, dropping \<open>b.pdf\<close> leaves \<open>b.pdf\<close>
  alone.
\<close>

theorem handleFileDrop_append_counterexample:
  "documents (dispatch (FileDrop [example_file ''b.pdf''])
                (example_page\<lparr>documents := Some [example_file ''a.pdf'']\<rparr>))
     = Some [example_file ''b.pdf'']
   \<and> documents (dispatch (FileDrop [example_file ''b.pdf''])
                (example_page\<lparr>documents := Some [example_file ''a.pdf'']\<rparr>))
     \<noteq> Some ([example_file ''a.pdf''] @ [example_file ''b.pdf''])"
  by (simp add: handleFileDrop_def displaySelectedFiles_def example_page_def)

text \<open>
  C8 amended: dropping files makes the dropped files, in their order, the file list
  (the list held before is replaced, so this appends only to an empty list), and
  \<open>removeFile(index)\<close> with an index inside the list removes exactly the file at that
  index and keeps the others in their order. After three files are dropped and index 1
  is removed, the list holds the first and the third file at positions 0 and 1.
\<close>

theorem file_list_order:
  assumes "documents s = Some files" and "0 \<le> index" and "index < int (length files)"
  shows "(case handleFileDrop new s of Inl _ \<Rightarrow> None | Inr t \<Rightarrow> documents t) = Some new
         \<and> (case removeFile index s of Inl _ \<Rightarrow> None | Inr t \<Rightarrow> documents t)
             = Some (take (nat index) files @ drop (Suc (nat index)) files)
         \<and> documents (dispatch (RemoveFile 1) (dispatch (FileDrop [f0, f1, f2]) s))
             = Some [f0, f2]"
proof -
  have 1: "(case handleFileDrop new s of Inl _ \<Rightarrow> None | Inr t \<Rightarrow> documents t) = Some new"
    by (simp add: handleFileDrop_def displaySelectedFiles_def assms(1) split: option.split)
  have 2: "(case removeFile index s of Inl _ \<Rightarrow> None | Inr t \<Rightarrow> documents t)
           = Some (take (nat index) files @ drop (Suc (nat index)) files)"
    using assms(2,3)
    by (simp add: removeFile_def kept_files displaySelectedFiles_def assms(1) Let_def
        split: option.split)
  define t where "t = displaySelectedFiles [f0, f1, f2] (s\<lparr>documents := Some [f0, f1, f2]\<rparr>)"
  have h: "dispatch (FileDrop [f0, f1, f2]) s = t"
    by (simp add: handleFileDrop_def t_def assms(1))
  have d: "documents t = Some [f0, f1, f2]"
    by (simp add: t_def displaySelectedFiles_def split: option.split)
  have k: "map snd (filter (\<lambda>(i, file). int i \<noteq> 1) (enumerate 0 [f0, f1, f2])) = [f0, f2]"
    by (simp add: kept_files)
  have 3: "documents (dispatch (RemoveFile 1) (dispatch (FileDrop [f0, f1, f2]) s)) = Some [f0, f2]"
    unfolding h
    by (simp add: removeFile_def d k displaySelectedFiles_def Let_def split: option.split)
  show ?thesis using 1 2 3 by simp
qed

theorem file_list_order_witness:
  "(case removeFile 1 (example_page\<lparr>documents :=
        Some [example_file ''a.pdf'', example_file ''b.pdf'', example_file ''c.pdf'']\<rparr>)
    of Inl _ \<Rightarrow> None | Inr t \<Rightarrow> documents t)
   = Some [example_file ''a.pdf'', example_file ''c.pdf'']
   \<and> documents (dispatch (RemoveFile 1)
        (dispatch (FileDrop [example_file ''a.pdf'', example_file ''b.pdf'', example_file ''c.pdf''])
           example_page))
     = Some [example_file ''a.pdf'', example_file ''c.pdf'']"
proof -
  let ?fs = "[example_file ''a.pdf'', example_file ''b.pdf'', example_file ''c.pdf'']"
  have d: "documents (example_page\<lparr>documents := Some ?fs\<rparr>) = Some ?fs" by simp
  have e: "documents example_page = Some []" by (simp add: example_page_def)
  show ?thesis
    using file_list_order[OF d, of 1 "[]" "example_file ''a.pdf''" "example_file ''b.pdf''"
                             "example_file ''c.pdf''"]
    by (simp add: handleFileDrop_def removeFile_def displaySelectedFiles_def e example_page_def
        Let_def)
qed

subsection \<open>The guard of \<open>loadActivities\<close>\<close>

lemma count_list_remove_nth:
  assumes "i < length xs"
  shows "count_list (take i xs @ drop (Suc i) xs) y
         = count_list xs y - (if xs ! i = y then 1 else 0)"
proof -
  have "count_list xs y = count_list (take i xs @ xs ! i # drop (Suc i) xs) y"
    using assms by (simp add: id_take_nth_drop[symmetric])
  then show ?thesis by auto
qed

lemma handleActivitySubmit_loading:
  "isLoading (handleActivitySubmit s) = isLoading s"
  "count_list (in_flight (handleActivitySubmit s)) Load_awaits = count_list (in_flight s) Load_awaits"
  by (simp_all add: handleActivitySubmit_def split_def Let_def makeRequest_def showLoading_def
      validateCurrentStep_keeps split: sum.split)

lemma nextStep_loading:
  "isLoading (snd (nextStep s)) = isLoading s" "in_flight (snd (nextStep s)) = in_flight s"
  by (simp_all add: nextStep_def split_def Let_def showNotification_def updateStepDisplay_def
      validateCurrentStep_keeps split: global_binding.split)

lemma previousStep_loading:
  "isLoading (previousStep s) = isLoading s" "in_flight (previousStep s) = in_flight s"
  by (simp_all add: previousStep_def updateStepDisplay_def)

lemma resetForm_loading:
  "isLoading (resetForm s) = isLoading s" "in_flight (resetForm s) = in_flight s"
  by (simp_all add: resetForm_def form_reset_def updateStepDisplay_def Let_def split: option.split)

lemma file_ops_loading:
  "isLoading (dispatch (FileDrop files) s) = isLoading s"
  "in_flight (dispatch (FileDrop files) s) = in_flight s"
  "isLoading (dispatch (RemoveFile index) s) = isLoading s"
  "in_flight (dispatch (RemoveFile index) s) = in_flight s"
  "isLoading (dispatch FileSelect s) = isLoading s"
  "in_flight (dispatch FileSelect s) = in_flight s"
  by (auto simp: handleFileDrop_def removeFile_def handleFileSelect_def displaySelectedFiles_def
      Let_def split: option.splits)

lemma makeRequest_settled_loading:
  "isLoading (snd (makeRequest_settled out s)) = isLoading s"
  "in_flight (snd (makeRequest_settled out s)) = in_flight s"
  by (simp_all add: makeRequest_settled_def handleAuthError_def split: outcome.split)

lemma handleActivitySubmit_catch_loading:
  "isLoading (snd (handleActivitySubmit_catch message s)) = isLoading s"
  "in_flight (snd (handleActivitySubmit_catch message s)) = in_flight s"
  by (simp_all add: handleActivitySubmit_catch_def showNotification_def hideLoading_def
      split: global_binding.split)

lemma loadActivities_catch_loading:
  "\<not> isLoading (snd (loadActivities_catch s))"
  "in_flight (snd (loadActivities_catch s)) = in_flight s"
  by (simp_all add: loadActivities_catch_def showNotification_def split: global_binding.split)

lemma loadActivities_loading_invariant:
  "loading_invariant s \<Longrightarrow> loading_invariant (loadActivities s)"
  by (simp add: loading_invariant_def loadActivities_def makeRequest_def)

lemma settle_loading_invariant:
  assumes "loading_invariant s"
  shows "loading_invariant (settle i out s)"
proof (cases "i < length (in_flight s)")
  case False
  then show ?thesis using assms by (simp add: settle_def)
next
  case True
  let ?s1 = "s\<lparr>in_flight := take i (in_flight s) @ drop (Suc i) (in_flight s)\<rparr>"
  have c: "count_list (in_flight ?s1) Load_awaits
           = count_list (in_flight s) Load_awaits - (if in_flight s ! i = Load_awaits then 1 else 0)"
    using count_list_remove_nth[OF True, of Load_awaits] by simp
  show ?thesis
  proof (cases "in_flight s ! i")
    case Submit_awaits
    then show ?thesis using assms True c
      by (simp add: settle_def resume_def split_def Let_def loading_invariant_def
          handleActivitySubmit_fulfilled_def handleActivitySubmit_rejected_def
          showNotification_def resetForm_loading handleActivitySubmit_catch_loading
          makeRequest_settled_loading split: sum.split global_binding.split)
  next
    case Load_awaits
    then have "Load_awaits \<in> set (in_flight s)" using True by (metis nth_mem)
    then have "0 < count_list (in_flight s) Load_awaits"
      using count_list_0_iff[of "in_flight s" Load_awaits] by simp
    then have "isLoading s" using assms by (auto simp: loading_invariant_def split: if_splits)
    then show ?thesis using assms True c Load_awaits
      by (simp add: settle_def resume_def split_def Let_def loading_invariant_def
          loadActivities_fulfilled_def loadActivities_rejected_def
          loadActivities_catch_loading makeRequest_settled_loading split: sum.split)
  qed
qed

lemma dispatch_loading_invariant:
  "loading_invariant s \<Longrightarrow> loading_invariant (dispatch e s)"
proof (cases e)
  case (Settle i out)
  assume "loading_invariant s"
  then show ?thesis using Settle by (simp add: settle_loading_invariant)
next
  case (Filter f)
  assume "loading_invariant s"
  then have "loading_invariant (s\<lparr>currentFilter := f, currentPage := 1\<rparr>)"
    by (simp add: loading_invariant_def)
  then show ?thesis using Filter
    by (simp add: filterActivities_def loadActivities_loading_invariant)
next
  case (Search q)
  assume "loading_invariant s"
  then have "loading_invariant (s\<lparr>searchQuery := q, currentPage := 1\<rparr>)"
    by (simp add: loading_invariant_def)
  then show ?thesis using Search
    by (simp add: handleSearch_def loadActivities_loading_invariant)
qed (auto simp: loading_invariant_def handleActivitySubmit_loading nextStep_loading
      previousStep_loading validateField_keeps validateDates_keeps clearFieldError_def Let_def
      refreshActivities_def loadActivities_def makeRequest_def
      file_ops_loading simp del: dispatch.simps(7,8,9))

lemma run_loading_invariant: "loading_invariant s \<Longrightarrow> loading_invariant (run events s)"
  unfolding run_def by (induction events arbitrary: s) (simp_all add: dispatch_loading_invariant)

text \<open>
  C10: \<open>loadActivities\<close> is guarded by \<open>isLoading\<close>. From a state with the flag clear and
  no load in flight, after any sequence of events the flag is set exactly while a
  request of \<open>loadActivities\<close> is in flight; a call made then returns the state as it is
  (no request is made); when that request settles, fulfilled or rejected, the flag is
  cleared, and a call made after that makes a request again.
\<close>

theorem loadActivities_guarded:
  assumes "\<not> isLoading s0" and "Load_awaits \<notin> set (in_flight s0)"
  shows "isLoading (run events s0) = (Load_awaits \<in> set (in_flight (run events s0)))
    \<and> (if isLoading (run events s0)
        then loadActivities (run events s0) = run events s0
        else length (requests (loadActivities (run events s0)))
               = Suc (length (requests (run events s0)))
             \<and> isLoading (loadActivities (run events s0)))
    \<and> \<not> isLoading (snd (loadActivities_fulfilled acts (run events s0)))
    \<and> \<not> isLoading (snd (loadActivities_rejected (run events s0)))
    \<and> (i < length (in_flight (run events s0)) \<and> in_flight (run events s0) ! i = Load_awaits
        \<longrightarrow> \<not> isLoading (settle i out (run events s0))
            \<and> length (requests (loadActivities (settle i out (run events s0))))
                = Suc (length (requests (settle i out (run events s0)))))"
proof -
  let ?s = "run events s0"
  have "loading_invariant s0"
    using assms by (simp add: loading_invariant_def)
  then have inv: "loading_invariant ?s" by (rule run_loading_invariant)
  have 1: "isLoading ?s = (Load_awaits \<in> set (in_flight ?s))"
    using inv count_list_0_iff[of "in_flight ?s" Load_awaits]
    by (auto simp: loading_invariant_def split: if_splits)
  have 2: "if isLoading ?s then loadActivities ?s = ?s
        else length (requests (loadActivities ?s)) = Suc (length (requests ?s))
             \<and> isLoading (loadActivities ?s)"
    by (simp add: loadActivities_def makeRequest_def)
  have 3: "\<not> isLoading (snd (loadActivities_fulfilled acts ?s))"
    "\<not> isLoading (snd (loadActivities_rejected ?s))"
    by (simp_all add: loadActivities_fulfilled_def loadActivities_rejected_def
        loadActivities_catch_loading)
  have 4: "\<not> isLoading (settle i out ?s)
            \<and> length (requests (loadActivities (settle i out ?s)))
                = Suc (length (requests (settle i out ?s)))"
    if "i < length (in_flight ?s) \<and> in_flight ?s ! i = Load_awaits"
  proof -
    have "\<not> isLoading (settle i out ?s)"
      using that
      by (simp add: settle_def resume_def split_def Let_def loadActivities_fulfilled_def
          loadActivities_rejected_def loadActivities_catch_loading split: sum.split)
    then show ?thesis by (simp add: loadActivities_def makeRequest_def)
  qed
  show ?thesis using 1 2 3 4 by simp
qed

theorem loadActivities_guarded_witness:
  "isLoading (run [Refresh] example_page)
   \<and> in_flight (run [Refresh] example_page) = [Load_awaits]
   \<and> loadActivities (run [Refresh] example_page) = run [Refresh] example_page
   \<and> \<not> isLoading (settle 0 (Responds 500 (Inl ''no body'')) (run [Refresh] example_page))
   \<and> length (requests (loadActivities
         (settle 0 (Responds 500 (Inl ''no body'')) (run [Refresh] example_page)))) = 2"
proof -
  have a: "\<not> isLoading example_page" "Load_awaits \<notin> set (in_flight example_page)"
    by (simp_all add: example_page_def)
  have r: "in_flight (run [Refresh] example_page) = [Load_awaits]"
          "length (requests (run [Refresh] example_page)) = 1"
    by (simp_all add: run_def refreshActivities_def loadActivities_def makeRequest_def
        example_page_def)
  have s: "length (requests (settle 0 (Responds 500 (Inl ''no body''))
                              (run [Refresh] example_page))) = 1"
    using r
    by (simp add: settle_def resume_def makeRequest_settled_def loadActivities_rejected_def
        loadActivities_catch_def showNotification_def split: global_binding.split)
  show ?thesis
    using loadActivities_guarded[OF a, of "[Refresh]" None 0 "Responds 500 (Inl ''no body'')"] r s
    by (auto split: if_splits)
qed

subsection \<open>Submitting twice\<close>

lemma read_parts_cong:
  "element_ids t = element_ids s \<Longrightarrow> controls t = controls s
   \<Longrightarrow> read_parts t ps = read_parts s ps"
  by (induction ps) (auto split: option.split)

lemma collectFormData_cong:
  "element_ids t = element_ids s \<Longrightarrow> controls t = controls s \<Longrightarrow> documents t = documents s
   \<Longrightarrow> collectFormData t = collectFormData s"
  using read_parts_cong[of t s payload_fields]
  by (simp add: collectFormData_def split: option.split)

lemma step_ok_cong:
  assumes "form_steps t = form_steps s" "currentStep t = currentStep s"
    "controls t = controls s" "element_ids t = element_ids s"
    "browser_Date_parse t = browser_Date_parse s"
  shows "step_ok t = step_ok s"
  unfolding step_ok_def dates_ok_def new_Date_def assms ..

text \<open>
  \<open>handleActivitySubmit\<close> has no guard: when the step is valid and the form data can be
  read, a second call before the first request settles makes a second request with the
  same body.
\<close>

lemma handleActivitySubmit_first:
  assumes "step_ok s" and "collectFormData s = Inr formData"
  shows "handleActivitySubmit s
         = makeRequest (POST_activities formData) Submit_awaits
             (showLoading (snd (validateCurrentStep s)))"
proof -
  have "collectFormData (snd (validateCurrentStep s)) = collectFormData s"
    by (rule collectFormData_cong) (simp_all add: validateCurrentStep_keeps)
  then have "collectFormData (snd (validateCurrentStep s)) = Inr formData"
    using assms(2) by simp
  then show ?thesis
    using assms(1) validateCurrentStep_result[of s]
    by (simp add: handleActivitySubmit_def split_def)
qed

lemma handleActivitySubmit_twice:
  assumes "step_ok s" and "collectFormData s = Inr formData"
  shows "requests (handleActivitySubmit (handleActivitySubmit s))
         = requests s @ [POST_activities formData, POST_activities formData]"
    and "in_flight (handleActivitySubmit (handleActivitySubmit s))
         = in_flight s @ [Submit_awaits, Submit_awaits]"
proof -
  let ?s1 = "handleActivitySubmit s"
  have s1: "?s1 = makeRequest (POST_activities formData) Submit_awaits
                    (showLoading (snd (validateCurrentStep s)))"
    by (rule handleActivitySubmit_first[OF assms])
  have "step_ok ?s1 = step_ok s"
    unfolding s1
    by (rule step_ok_cong)
       (simp_all add: makeRequest_def showLoading_def validateCurrentStep_keeps)
  then have ok: "step_ok ?s1" using assms(1) by simp
  have "collectFormData ?s1 = collectFormData s"
    unfolding s1
    by (rule collectFormData_cong)
       (simp_all add: makeRequest_def showLoading_def validateCurrentStep_keeps)
  then have fd: "collectFormData ?s1 = Inr formData" using assms(2) by simp
  have s2: "handleActivitySubmit ?s1 = makeRequest (POST_activities formData) Submit_awaits
                    (showLoading (snd (validateCurrentStep ?s1)))"
    by (rule handleActivitySubmit_first[OF ok fd])
  have r1: "requests ?s1 = requests s @ [POST_activities formData]"
    and f1: "in_flight ?s1 = in_flight s @ [Submit_awaits]"
    unfolding s1 by (simp_all add: makeRequest_def showLoading_def validateCurrentStep_keeps)
  show "requests (handleActivitySubmit ?s1)
         = requests s @ [POST_activities formData, POST_activities formData]"
    unfolding s2 using r1
    by (simp add: makeRequest_def showLoading_def validateCurrentStep_keeps)
  show "in_flight (handleActivitySubmit ?s1) = in_flight s @ [Submit_awaits, Submit_awaits]"
    unfolding s2 using f1
    by (simp add: makeRequest_def showLoading_def validateCurrentStep_keeps)
qed

text \<open>
  The guard of \<open>generatePortfolio\<close>, for comparison: a call while the flag is set makes
  no request.
\<close>

lemma generatePortfolio_guarded:
  "isGenerating p \<Longrightarrow>
     portfolio_requests (snd (generatePortfolio template includeActivities p))
       = portfolio_requests p"
  by (simp add: generatePortfolio_def split: global_binding.split)

lemmas js_eval = js_def trim_def is_StrWhiteSpaceChar_def is_digit_def is_hex_digit_def
  is_octal_digit_def is_binary_digit_def digit_value_def radix_value_def SignedInteger_def
  ExponentPart_opt_def scale10_def StrUnsignedDecimalLiteral_def StrDecimalLiteral_def
  NonDecimalIntegerLiteral_def StringToNumber_def isNaN_def parseInt_def

lemma example_page_step_ok: "step_ok example_page"
  by (simp add: step_ok_def example_page_def example_controls_def field_ok_def field_rules_def
      js_eval)

lemma example_page_formData:
  "collectFormData example_page =
     Inr \<lparr>fd_parts =
            [(''title'', js ''Robotics workshop''), (''activityType'', js ''technical''),
             (''description'', js ''Built a line follower''), (''startDate'', js ''2025-03-10''),
             (''endDate'', js ''2025-03-15''), (''durationHours'', js ''3''),
             (''venue'', js ''Lab 2''), (''organizer'', js ''IEEE''),
             (''roleInActivity'', js ''Participant''), (''achievement'', js ''First prize''),
             (''skillsGained'', js ''Soldering'')],
          fd_documents = []\<rparr>"
  by (simp add: collectFormData_def payload_fields_def example_page_def example_controls_def)

text \<open>
  C1 fails on the program: two \<open>submit\<close> events on the filled-in form, the second before
  the first request has settled, make two calls of \<open>POST /activities\<close>, and both are in
  flight.
\<close>

theorem double_submit_two_requests:
  "length (filter is_POST_activities (requests (run [Submit, Submit] example_page))) = 2
   \<and> in_flight (run [Submit, Submit] example_page) = [Submit_awaits, Submit_awaits]"
proof -
  have e: "requests example_page = []" "in_flight example_page = []"
    by (simp_all add: example_page_def)
  show ?thesis
    using handleActivitySubmit_twice[OF example_page_step_ok example_page_formData] e
    by (simp add: run_def)
qed

subsection \<open>The date rule\<close>


lemmas date_eval = date_only_def calendar_date_def Date_parse_def new_Date_def MakeDay_def DaysBeforeMonth_def
  DaysInMonth_def InLeapYear_def DayFromYear_def msPerDay_def

lemma date_only_examples:
  "date_only (js ''2025-03-10'') = Some 1741564800000"
  "date_only (js ''2025-03-05'') = Some 1741132800000"
  "date_only (js ''2025-03-15'') = Some 1741996800000"
  "date_only (js ''1970-01-01'') = Some 0"
  "date_only (js ''2024-02-29'') = Some 1709164800000"
  "date_only (js ''2025-02-29'') = None"
  "date_only (js ''10 March 2025'') = None"
  by (simp_all add: date_eval js_eval)

subsection \<open>The time value of a calendar date\<close>



















subsection \<open>The field rules\<close>

lemma digit_not_space: "is_digit c \<Longrightarrow> \<not> is_StrWhiteSpaceChar c"
  by (auto simp: is_digit_def is_StrWhiteSpaceChar_def)

lemma trim_id:
  assumes "v \<noteq> []" "\<not> is_StrWhiteSpaceChar (hd v)" "\<not> is_StrWhiteSpaceChar (last v)"
  shows "trim v = v"
proof -
  have 1: "dropWhile is_StrWhiteSpaceChar v = v"
    using assms(1,2) by (cases v) simp_all
  have 2: "dropWhile is_StrWhiteSpaceChar (rev v) = rev v"
    using assms(1,3) by (cases "rev v") (simp_all add: last_rev[symmetric] hd_rev)
  show ?thesis by (simp add: trim_def 1 2)
qed

lemma all_digits_take_drop:
  "list_all is_digit ds \<Longrightarrow> takeWhile is_digit ds = ds \<and> dropWhile is_digit ds = []"
  by (induction ds) simp_all

lemma digit_value_le: "is_digit c \<Longrightarrow> digit_value c \<le> 9"
  by (auto simp: is_digit_def digit_value_def)

lemma radix_value_snoc: "radix_value R (ds @ [d]) = R * radix_value R ds + digit_value d"
  by (simp add: radix_value_def)

lemma radix_value_bound:
  "list_all is_digit ds \<Longrightarrow> radix_value 10 ds < 10 ^ length ds"
proof (induction ds rule: rev_induct)
  case Nil
  show ?case by (simp add: radix_value_def)
next
  case (snoc d ds)
  then have "radix_value 10 ds < 10 ^ length ds" "digit_value d \<le> 9"
    by (simp_all add: digit_value_le)
  then have "10 * radix_value 10 ds + digit_value d < 10 * 10 ^ length ds" by simp
  then show ?case by (simp add: radix_value_snoc)
qed

text \<open>A fraction \<open>.ddd\<close> lies in the unit interval.\<close>

lemma fraction_bounds:
  assumes "list_all is_digit fp"
  shows "0 \<le> (of_nat (radix_value 10 fp) / 10 ^ length fp :: rat)"
    and "(of_nat (radix_value 10 fp) / 10 ^ length fp :: rat) < 1"
proof -
  show "0 \<le> (of_nat (radix_value 10 fp) / 10 ^ length fp :: rat)" by simp
  have "(of_nat (radix_value 10 fp) :: rat) < of_nat (10 ^ length fp)"
    using radix_value_bound[OF assms] by (simp only: of_nat_less_iff)
  then show "(of_nat (radix_value 10 fp) / 10 ^ length fp :: rat) < 1" by simp
qed

text \<open>
  The unsigned part of a plain decimal: what \<open>ToNumber\<close> and \<open>parseInt\<close> make of it, and
  why neither trimming nor a radix prefix applies.
\<close>

lemma plain_unsigned:
  assumes ip: "takeWhile is_digit u \<noteq> []"
      and r: "case dropWhile is_digit u of [] \<Rightarrow> True | c # fp \<Rightarrow> c = 46 \<and> list_all is_digit fp"
  shows "\<exists>f::rat. 0 \<le> f \<and> f < 1
           \<and> StrUnsignedDecimalLiteral u
               = Finite (of_nat (radix_value 10 (takeWhile is_digit u)) + f)"
    and "NonDecimalIntegerLiteral u = None"
    and "\<not> (2 \<le> length u \<and> (take 2 u = js ''0x'' \<or> take 2 u = js ''0X''))"
    and "u \<noteq> []" and "is_digit (hd u)" and "\<not> is_StrWhiteSpaceChar (last u)"
proof -
  show ne: "u \<noteq> []" using ip by auto
  show hd: "is_digit (hd u)" using ip by (cases u) (auto split: if_splits)
  have u: "u = takeWhile is_digit u @ dropWhile is_digit u" by simp
  have second: "is_digit p \<or> p = 46" if "u = z # p # ds" for z p ds
  proof (cases "is_digit z \<and> is_digit p")
    case True
    then show ?thesis by simp
  next
    case False
    have "is_digit z" using hd that by simp
    then have "dropWhile is_digit u = p # ds" using False that by simp
    then show ?thesis using r by simp
  qed
  show "NonDecimalIntegerLiteral u = None"
  proof (cases u)
    case Nil
    then show ?thesis by (simp add: NonDecimalIntegerLiteral_def)
  next
    case (Cons z t)
    show ?thesis
    proof (cases t)
      case Nil
      then show ?thesis using Cons by (simp add: NonDecimalIntegerLiteral_def)
    next
      case (Cons p ds)
      then have "is_digit p \<or> p = 46" using second \<open>u = z # t\<close> by simp
      then show ?thesis using Cons \<open>u = z # t\<close>
        by (auto simp: NonDecimalIntegerLiteral_def is_digit_def)
    qed
  qed
  show "\<not> (2 \<le> length u \<and> (take 2 u = js ''0x'' \<or> take 2 u = js ''0X''))"
  proof (cases u)
    case Nil
    then show ?thesis by simp
  next
    case (Cons z t)
    show ?thesis
    proof (cases t)
      case Nil
      then show ?thesis using Cons by simp
    next
      case (Cons p ds)
      then have "is_digit p \<or> p = 46" using second \<open>u = z # t\<close> by simp
      then show ?thesis using Cons \<open>u = z # t\<close>
        by (auto simp: js_def is_digit_def)
    qed
  qed
  have "hd u \<noteq> 73" using hd by (auto simp: is_digit_def)
  then have inf: "u \<noteq> js ''Infinity''" by (auto simp: js_def)
  show "\<not> is_StrWhiteSpaceChar (last u)"
  proof (cases "dropWhile is_digit u")
    case Nil
    then have "\<forall>x\<in>set u. is_digit x" by simp
    then have "is_digit (last u)" using ne by simp
    then show ?thesis by (rule digit_not_space)
  next
    case (Cons c fp)
    then have c: "c = 46" "list_all is_digit fp" using r by simp_all
    have "last u = last (c # fp)" using u Cons by (metis last_appendR list.distinct(1))
    then have "last u = 46 \<or> is_digit (last u)"
      using c by (cases "fp = []") (auto simp: list_all_iff)
    then show ?thesis
    proof
      assume "last u = 46"
      then show ?thesis by (simp add: is_StrWhiteSpaceChar_def)
    next
      assume "is_digit (last u)"
      then show ?thesis by (rule digit_not_space)
    qed
  qed
  show "\<exists>f::rat. 0 \<le> f \<and> f < 1
           \<and> StrUnsignedDecimalLiteral u
               = Finite (of_nat (radix_value 10 (takeWhile is_digit u)) + f)"
  proof (cases "dropWhile is_digit u")
    case Nil
    have "StrUnsignedDecimalLiteral u
               = Finite (of_nat (radix_value 10 (takeWhile is_digit u)) + 0)"
      unfolding StrUnsignedDecimalLiteral_def Let_def Nil using inf ip by simp
    then show ?thesis by (intro exI[of _ 0]) simp
  next
    case (Cons c fp)
    then have c: "c = 46" "list_all is_digit fp" using r by simp_all
    have td: "takeWhile is_digit fp = fp" "dropWhile is_digit fp = []"
      using all_digits_take_drop[OF c(2)] by blast+
    have "StrUnsignedDecimalLiteral u
          = Finite (of_nat (radix_value 10 (takeWhile is_digit u))
                    + of_nat (radix_value 10 fp) / 10 ^ length fp)"
      unfolding StrUnsignedDecimalLiteral_def Let_def Cons
      using inf ip c(1) by (simp add: td ExponentPart_opt_def scale10_def)
    then show ?thesis
      using fraction_bounds[OF c(2)]
      by (intro exI[of _ "of_nat (radix_value 10 fp) / 10 ^ length fp"]) simp
  qed
qed

text \<open>
  A plain decimal is its own trimmed form, \<open>parseInt\<close> reads its integer part with the
  sign, and \<open>ToNumber\<close> reads the whole of it: the integer part and a fraction below 1,
  with the sign.
\<close>

lemma plain_decimal_numbers:
  assumes "plain_decimal v"
  shows "trim v = v \<and> v \<noteq> []
         \<and> (\<exists>(n::int) (f::rat). 0 \<le> f \<and> f < 1 \<and> parseInt v = Finite (of_int n)
              \<and> (StringToNumber v = Finite (of_int n + f)
                  \<or> n \<le> 0 \<and> StringToNumber v = Finite (of_int n - f)))"
proof -
  define u where "u = (case v of [] \<Rightarrow> [] | c # r \<Rightarrow> if c = 43 \<or> c = 45 then r else v)"
  have pd: "takeWhile is_digit u \<noteq> []
            \<and> (case dropWhile is_digit u of [] \<Rightarrow> True
                | c # fp \<Rightarrow> c = 46 \<and> list_all is_digit fp \<and> length fp \<le> 15)"
    using assms by (simp add: plain_decimal_def Let_def u_def)
  then have ip: "takeWhile is_digit u \<noteq> []" by simp
  have r: "case dropWhile is_digit u of [] \<Rightarrow> True
           | c # fp \<Rightarrow> c = 46 \<and> list_all is_digit fp"
  proof (cases "dropWhile is_digit u")
    case Nil
    show ?thesis unfolding Nil by simp
  next
    case (Cons c fp)
    show ?thesis using pd unfolding Cons by simp
  qed
  note U = plain_unsigned[OF ip r]
  from U(1) obtain f :: rat where f: "0 \<le> f" "f < 1"
    "StrUnsignedDecimalLiteral u = Finite (of_nat (radix_value 10 (takeWhile is_digit u)) + f)"
    by blast
  define N where "N = radix_value 10 (takeWhile is_digit u)"
  have h: "hd u \<noteq> 43" "hd u \<noteq> 45" using U(5) by (auto simp: is_digit_def)
  have vu: "v = u \<or> v = 43 # u \<or> v = 45 # u"
  proof (cases v)
    case Nil
    then show ?thesis by (simp add: u_def)
  next
    case (Cons c r)
    then show ?thesis by (simp add: u_def)
  qed
  then have ne: "v \<noteq> []" using U(4) by auto
  have lastv: "last v = last u" using vu U(4) by auto
  have hdv: "\<not> is_StrWhiteSpaceChar (hd v)"
  proof (cases "v = u")
    case True
    then show ?thesis using U(5) by (simp add: digit_not_space)
  next
    case False
    then have "hd v = 43 \<or> hd v = 45" using vu by auto
    then show ?thesis by (auto simp: is_StrWhiteSpaceChar_def)
  qed
  have t: "trim v = v" using ne hdv lastv U(6) by (intro trim_id) simp_all
  have w: "dropWhile is_StrWhiteSpaceChar v = v" using ne hdv by (cases v) simp_all
  consider (plain) "v = u" | (plus) "v = 43 # u" | (minus) "v = 45 # u"
    using vu by blast
  then have "\<exists>n::int. parseInt v = Finite (of_int n)
              \<and> (StringToNumber v = Finite (of_int n + f)
                  \<or> n \<le> 0 \<and> StringToNumber v = Finite (of_int n - f))"
  proof cases
    case plain
    have sd: "StrDecimalLiteral u = StrUnsignedDecimalLiteral u"
      using U(4) h by (cases u) (simp_all add: StrDecimalLiteral_def)
    have 1: "StringToNumber v = Finite (of_int (int N) + f)"
      unfolding StringToNumber_def Let_def t
      using U(4) by (simp add: plain U(2) sd f(3) N_def)
    have 2: "parseInt v = Finite (of_int (int N))"
      unfolding parseInt_def Let_def w
      using U(4) h U(3) ip by (auto simp: plain N_def)
    show ?thesis using 1 2 by blast
  next
    case plus
    have nd: "NonDecimalIntegerLiteral (43 # u) = None"
      by (simp add: NonDecimalIntegerLiteral_def split: list.split)
    have 1: "StringToNumber v = Finite (of_int (int N) + f)"
      unfolding StringToNumber_def Let_def t
      by (simp add: plus nd StrDecimalLiteral_def f(3) N_def)
    have 2: "parseInt v = Finite (of_int (int N))"
      unfolding parseInt_def Let_def w
      using U(3) ip by (auto simp: plus N_def)
    show ?thesis using 1 2 by blast
  next
    case minus
    have nd: "NonDecimalIntegerLiteral (45 # u) = None"
      by (simp add: NonDecimalIntegerLiteral_def split: list.split)
    have 1: "StringToNumber v = Finite (of_int (- int N) - f)"
      unfolding StringToNumber_def Let_def t
      by (simp add: minus nd StrDecimalLiteral_def f(3) N_def)
    have 2: "parseInt v = Finite (of_int (- int N))"
      unfolding parseInt_def Let_def w
      using U(3) ip by (auto simp: minus N_def)
    have "- int N \<le> 0" by simp
    then show ?thesis using 1 2 by blast
  qed
  then show ?thesis using t ne f(1,2) by blast
qed

text \<open>
  So on a plain decimal the test the program makes, on the integer \<open>parseInt\<close> reads,
  is the test "numeric and at least 1".
\<close>

lemma plain_decimal_rule:
  assumes "plain_decimal v"
  shows "(isNaN v \<or> js_less (parseInt v) (Finite 1)) = (\<not> spec_duration_ok v)"
proof -
  from plain_decimal_numbers[OF assms]
  obtain n :: int and f :: rat where f: "0 \<le> f" "f < 1"
    and p: "parseInt v = Finite (of_int n)"
    and s: "StringToNumber v = Finite (of_int n + f)
            \<or> n \<le> 0 \<and> StringToNumber v = Finite (of_int n - f)"
    by blast
  have a: "(of_int n :: rat) < 1 \<longleftrightarrow> n \<le> 0" by auto
  from s show ?thesis
  proof
    assume s1: "StringToNumber v = Finite (of_int n + f)"
    have "(1 \<le> of_int n + f) \<longleftrightarrow> 1 \<le> n"
    proof
      assume "1 \<le> of_int n + f"
      then have "(0::rat) < of_int n" using f(2) by linarith
      then show "1 \<le> n" by simp
    next
      assume "1 \<le> n"
      then have "(1::rat) \<le> of_int n" by simp
      then show "1 \<le> of_int n + f" using f(1) by linarith
    qed
    then show ?thesis using a by (auto simp: isNaN_def spec_duration_ok_def s1 p)
  next
    assume s2: "n \<le> 0 \<and> StringToNumber v = Finite (of_int n - f)"
    then have "(of_int n :: rat) \<le> 0" by simp
    then have "\<not> (1 \<le> of_int n - f)" using f(1) by linarith
    then show ?thesis using a s2 by (auto simp: isNaN_def spec_duration_ok_def p)
  qed
qed

text \<open>The table \<open>validateField\<close> applies, rule by rule in the order the code tests them.\<close>

lemma field_rules_table:
  "field_rules field =
     (if frequired field \<and> trim (fvalue field) = []
        then (False, ''This field is required'')
      else if fname field = ''title'' \<and> trim (fvalue field) \<noteq> []
              \<and> length (trim (fvalue field)) < 3
        then (False, ''Title must be at least 3 characters'')
      else if fname field = ''description'' \<and> trim (fvalue field) \<noteq> []
              \<and> length (trim (fvalue field)) < 10
        then (False, ''Description must be at least 10 characters'')
      else if fname field = ''durationHours'' \<and> trim (fvalue field) \<noteq> []
              \<and> (isNaN (trim (fvalue field))
                  \<or> js_less (parseInt (trim (fvalue field))) (Finite 1))
        then (False, ''Duration must be a positive number'')
      else (True, ''''))"
  by (simp add: field_rules_def Let_def)

lemma plain_decimal_not_empty: "plain_decimal v \<Longrightarrow> v \<noteq> []"
  by (auto simp: plain_decimal_def)

text \<open>
  On a field written plainly the test the program makes is the table's: the verdict
  and the message.
\<close>

lemma duration_test_plainly:
  assumes "written_plainly field" and "fname field = ''durationHours''"
    and "trim (fvalue field) \<noteq> []"
  shows "(isNaN (trim (fvalue field)) \<or> js_less (parseInt (trim (fvalue field))) (Finite 1))
         = (\<not> spec_duration_ok (trim (fvalue field)))"
proof (cases "isNaN (trim (fvalue field))")
  case True
  then show ?thesis by (simp add: isNaN_def spec_duration_ok_def)
next
  case False
  then have "plain_decimal (trim (fvalue field))"
    using assms by (simp add: written_plainly_def)
  then show ?thesis by (rule plain_decimal_rule)
qed

lemma field_rules_plainly:
  assumes "written_plainly field"
  shows "field_rules field =
     (if frequired field \<and> trim (fvalue field) = []
        then (False, ''This field is required'')
      else if fname field = ''title'' \<and> trim (fvalue field) \<noteq> []
              \<and> length (trim (fvalue field)) < 3
        then (False, ''Title must be at least 3 characters'')
      else if fname field = ''description'' \<and> trim (fvalue field) \<noteq> []
              \<and> length (trim (fvalue field)) < 10
        then (False, ''Description must be at least 10 characters'')
      else if fname field = ''durationHours'' \<and> trim (fvalue field) \<noteq> []
              \<and> \<not> spec_duration_ok (trim (fvalue field))
        then (False, ''Duration must be a positive number'')
      else (True, ''''))"
  using duration_test_plainly[OF assms] by (auto simp: field_rules_table)

lemma field_ok_spec:
  assumes "written_plainly field"
  shows "field_ok field = spec_table_ok field"
  unfolding field_ok_def field_rules_plainly[OF assms] spec_table_ok_def spec_specific_rule_def
  by (auto simp: not_less)

text \<open>
  C5 fails on the program, in the row of \<open>durationHours\<close>. \<open>validateField\<close> tests
  \<open>isNaN(value) || parseInt(value) < 1\<close>: it means "not numeric or less than 1" and has
  the message for it, but compares with 1 the integer \<open>parseInt\<close> reads at the start of
  the text, not the number. \<open>-.5\<close> is numeric (minus one half) and less than 1, and
  passes, because \<open>parseInt\<close> finds no digit and \<open>NaN < 1\<close> is false; \<open>0.9e1\<close> is numeric
  (nine) and not less than 1, and is refused, because \<open>parseInt\<close> reads 0.
\<close>

theorem durationHours_rule_slip:
  "StringToNumber (js ''-.5'') = Finite (- (1 / 2))
   \<and> \<not> spec_duration_ok (js ''-.5'')
   \<and> field_rules \<lparr>fname = ''durationHours'', fvalue = js ''-.5'', fdefault = [],
                   frequired = True, fparent = 105\<rparr> = (True, '''')
   \<and> fst (validateField 5 (example_page_with 5 ''-.5''))
   \<and> StringToNumber (js ''0.9e1'') = Finite 9
   \<and> spec_duration_ok (js ''0.9e1'')
   \<and> field_rules \<lparr>fname = ''durationHours'', fvalue = js ''0.9e1'', fdefault = [],
                   frequired = True, fparent = 105\<rparr>
       = (False, ''Duration must be a positive number'')
   \<and> \<not> fst (validateField 5 (example_page_with 5 ''0.9e1''))"
proof -
  have n: "StringToNumber (js ''-.5'') = Finite (- (1 / 2))"
    "StringToNumber (js ''0.9e1'') = Finite 9"
    by (simp_all add: js_eval)
  have r: "field_rules \<lparr>fname = ''durationHours'', fvalue = js ''-.5'', fdefault = [],
                        frequired = True, fparent = 105\<rparr> = (True, '''')"
    "field_rules \<lparr>fname = ''durationHours'', fvalue = js ''0.9e1'', fdefault = [],
                   frequired = True, fparent = 105\<rparr>
       = (False, ''Duration must be a positive number'')"
    by (simp_all add: field_rules_def js_eval)
  have c: "controls (example_page_with 5 v) 5
           = \<lparr>fname = ''durationHours'', fvalue = js v, fdefault = [],
               frequired = False, fparent = 105\<rparr>" for v
    by (simp add: example_page_with_def example_page_def example_controls_def)
  have v: "fst (validateField 5 (example_page_with 5 ''-.5''))"
    "\<not> fst (validateField 5 (example_page_with 5 ''0.9e1''))"
    by (simp_all add: validateField_result field_ok_def c field_rules_def js_eval)
  show ?thesis using n r v by (simp add: spec_duration_ok_def)
qed

subsection \<open>Advancing a step\<close>

lemma dates_ok_spec:
  assumes "element_ids s ''startDate'' \<noteq> None" and "element_ids s ''endDate'' \<noteq> None"
  shows "dates_ok s = spec_dates_ok s"
  using assms by (auto simp: dates_ok_def spec_dates_ok_def)

lemma step_ok_spec:
  assumes "plainly_filled s"
  shows "step_ok s = spec_validateStep s"
proof (cases "form_steps s (currentStep s)")
  case None
  then show ?thesis by (simp add: step_ok_def spec_validateStep_def)
next
  case (Some step_fields)
  have "\<forall>c\<in>set step_fields. written_plainly (controls s c)"
    using assms Some by (simp add: plainly_filled_def list_all_iff)
  then have f: "list_all (\<lambda>c. field_ok (controls s c)) step_fields
                = list_all (\<lambda>c. spec_table_ok (controls s c)) step_fields"
    by (simp add: list_all_iff field_ok_spec)
  have d: "dates_ok s = spec_dates_ok s" if "currentStep s = 2"
    using assms that by (intro dates_ok_spec) (simp_all add: plainly_filled_def)
  show ?thesis using Some f d by (auto simp: step_ok_def spec_validateStep_def)
qed

lemmas example_eval = example_page_with_def example_page_def example_controls_def on_step_def
  updateStepDisplay_def

text \<open>
  C3, as the specification states it, fails on the program. On step 2 of the example
  page every required field is filled in and passes its rule, and 2 is below
  \<open>totalSteps\<close>; yet \<open>nextStep\<close> stays on step 2 when the end date lies before the start
  date, and when the optional \<open>durationHours\<close> holds \<open>abc\<close>: the validation of a step
  runs over all its fields and the date rule, not over the required fields alone.
\<close>

theorem nextStep_required_fields_counterexample:
  "spec_required_fields_ok (on_step 2 (example_page_with 4 ''2025-03-05''))
   \<and> currentStep (on_step 2 (example_page_with 4 ''2025-03-05''))
       < totalSteps (on_step 2 (example_page_with 4 ''2025-03-05''))
   \<and> currentStep (snd (nextStep (on_step 2 (example_page_with 4 ''2025-03-05'')))) = 2
   \<and> spec_required_fields_ok (on_step 2 (example_page_with 5 ''abc''))
   \<and> currentStep (on_step 2 (example_page_with 5 ''abc''))
       < totalSteps (on_step 2 (example_page_with 5 ''abc''))
   \<and> currentStep (snd (nextStep (on_step 2 (example_page_with 5 ''abc'')))) = 2"
proof -
  have r: "spec_required_fields_ok (on_step 2 (example_page_with 4 ''2025-03-05''))"
    "spec_required_fields_ok (on_step 2 (example_page_with 5 ''abc''))"
    by (simp_all add: spec_required_fields_ok_def spec_specific_rule_def example_eval js_eval)
  have e: "js ''2025-03-10'' \<noteq> []" "js ''2025-03-05'' \<noteq> []" by (simp_all add: js_def)
  have d: "\<not> dates_ok (on_step 2 (example_page_with 4 ''2025-03-05''))"
    by (simp add: dates_ok_def example_eval new_Date_def Date_parse_def date_only_examples e)
  have f: "\<not> field_ok (controls (on_step 2 (example_page_with 5 ''abc'')) 5)"
    by (simp add: field_ok_def field_rules_def example_eval js_eval)
  have 1: "\<not> step_ok (on_step 2 (example_page_with 4 ''2025-03-05''))"
    using d by (simp add: step_ok_def example_eval)
  have 2: "\<not> step_ok (on_step 2 (example_page_with 5 ''abc''))"
    using f by (simp add: step_ok_def example_eval)
  have s: "currentStep (on_step 2 t) = 2" "totalSteps (on_step 2 (example_page_with c v)) = 3"
    for t c v
    by (simp_all add: example_eval)
  show ?thesis
    using r 1 2 by (simp add: nextStep_currentStep validateCurrentStep_result s)
qed

text \<open>
  C3 amended: \<open>nextStep\<close> moves \<open>currentStep\<close> from \<open>n\<close> to \<open>n + 1\<close> exactly when
  \<open>validateStep(n)\<close> succeeds and \<open>n\<close> is below \<open>totalSteps\<close>, and leaves it unchanged
  otherwise; and \<open>validateStep(n)\<close> succeeds exactly when every field of step \<open>n\<close>,
  required or not, passes the rule table (a required field is not empty after
  trimming; a non-empty title has at least 3 code units, a non-empty description at
  least 10, a non-empty \<open>durationHours\<close> is numeric and at least 1) and, on step 2, the
  end date is not before the start date when both are present. This holds on a page
  whose step 2 has the two date inputs and for values of \<open>durationHours\<close> that are
  empty, not numeric, or written in plain decimal notation.
\<close>

theorem nextStep_advances_iff_valid:
  assumes "plainly_filled s"
  shows "fst (validateCurrentStep s) = spec_validateStep s
   \<and> (currentStep (snd (nextStep s)) = currentStep s + 1)
       = (spec_validateStep s \<and> currentStep s < totalSteps s)
   \<and> (currentStep (snd (nextStep s)) = currentStep s + 1
       \<or> currentStep (snd (nextStep s)) = currentStep s)
   \<and> totalSteps (snd (nextStep s)) = totalSteps s"
  by (simp add: validateCurrentStep_result step_ok_spec[OF assms] nextStep_currentStep
      nextStep_totalSteps)

theorem nextStep_advances_iff_valid_witness:
  "plainly_filled (on_step 2 example_page)
   \<and> spec_validateStep (on_step 2 example_page)
   \<and> currentStep (snd (nextStep (on_step 2 example_page))) = 3
   \<and> plainly_filled (on_step 2 (example_page_with 4 ''2025-03-05''))
   \<and> \<not> spec_validateStep (on_step 2 (example_page_with 4 ''2025-03-05''))
   \<and> currentStep (snd (nextStep (on_step 2 (example_page_with 4 ''2025-03-05'')))) = 2
   \<and> plainly_filled (on_step 2 (example_page_with 5 ''0.5''))
   \<and> \<not> spec_validateStep (on_step 2 (example_page_with 5 ''0.5''))
   \<and> currentStep (snd (nextStep (on_step 2 (example_page_with 5 ''0.5'')))) = 2
   \<and> plainly_filled (on_step 1 (example_page_with 0 ''AB''))
   \<and> \<not> spec_validateStep (on_step 1 (example_page_with 0 ''AB''))
   \<and> currentStep (snd (nextStep (on_step 1 (example_page_with 0 ''AB'')))) = 1
   \<and> plainly_filled example_page
   \<and> spec_validateStep example_page
   \<and> currentStep example_page = totalSteps example_page
   \<and> currentStep (snd (nextStep example_page)) = 3"
proof -
  have e: "js ''2025-03-10'' \<noteq> []" "js ''2025-03-05'' \<noteq> []" "js ''2025-03-15'' \<noteq> []"
    by (simp_all add: js_def)
  have t: "trim (js ''3'') = js ''3''" "trim (js ''0.5'') = js ''0.5''"
    by (simp_all add: js_eval)
  have pd: "plain_decimal (js ''3'')" "plain_decimal (js ''0.5'')"
    by (simp_all add: plain_decimal_def js_def is_digit_def)
  have p: "plainly_filled (on_step 2 example_page)"
    "plainly_filled (on_step 2 (example_page_with 4 ''2025-03-05''))"
    "plainly_filled (on_step 2 (example_page_with 5 ''0.5''))"
    "plainly_filled (on_step 1 (example_page_with 0 ''AB''))"
    "plainly_filled example_page"
    by (simp_all add: plainly_filled_def written_plainly_def example_eval t pd)
  have n: "spec_duration_ok (js ''3'')" "\<not> spec_duration_ok (js ''0.5'')"
    by (simp_all add: spec_duration_ok_def js_eval)
  have d: "spec_dates_ok (on_step 2 example_page)"
    "\<not> spec_dates_ok (on_step 2 (example_page_with 4 ''2025-03-05''))"
    by (simp_all add: spec_dates_ok_def example_eval new_Date_def Date_parse_def
        date_only_examples e)
  have v1: "spec_validateStep (on_step 2 example_page)"
    using d(1) n(1)
    by (simp add: spec_validateStep_def spec_table_ok_def spec_specific_rule_def example_eval
        js_eval)
  have v2: "\<not> spec_validateStep (on_step 2 (example_page_with 4 ''2025-03-05''))"
    using d(2) by (simp add: spec_validateStep_def example_eval js_eval)
  have v3: "\<not> spec_validateStep (on_step 2 (example_page_with 5 ''0.5''))"
    using n(2)
    by (simp add: spec_validateStep_def spec_table_ok_def spec_specific_rule_def example_eval
        js_eval)
  have v4: "\<not> spec_validateStep (on_step 1 (example_page_with 0 ''AB''))"
    by (simp add: spec_validateStep_def spec_table_ok_def spec_specific_rule_def example_eval
        js_eval)
  have v5: "spec_validateStep example_page"
    by (simp add: spec_validateStep_def spec_table_ok_def spec_specific_rule_def example_eval
        js_eval)
  have s: "currentStep (on_step n t) = n" "totalSteps (on_step n (example_page_with c v)) = 3"
    "totalSteps (on_step n example_page) = 3"
    "currentStep example_page = 3" "totalSteps example_page = 3"
    for t c v n
    by (simp_all add: example_eval)
  have c1: "currentStep (snd (nextStep (on_step 2 example_page))) = 3"
    using nextStep_advances_iff_valid[OF p(1)] v1 by (auto simp: s)
  have c2: "currentStep (snd (nextStep (on_step 2 (example_page_with 4 ''2025-03-05'')))) = 2"
    using nextStep_advances_iff_valid[OF p(2)] v2 by (auto simp: s)
  have c3: "currentStep (snd (nextStep (on_step 2 (example_page_with 5 ''0.5'')))) = 2"
    using nextStep_advances_iff_valid[OF p(3)] v3 by (auto simp: s)
  have c4: "currentStep (snd (nextStep (on_step 1 (example_page_with 0 ''AB'')))) = 1"
    using nextStep_advances_iff_valid[OF p(4)] v4 by (auto simp: s)
  have c5: "currentStep (snd (nextStep example_page)) = 3"
    using nextStep_advances_iff_valid[OF p(5)] v5 by (auto simp: s)
  show ?thesis
    using p v1 v2 v3 v4 v5 c1 c2 c3 c4 c5 by (simp add: s)
qed

subsection \<open>Validating twice\<close>

lemma markers_ok_tl: "markers_ok s \<Longrightarrow> tl (form_errors s p) = []"
proof -
  assume "markers_ok s"
  then have "length (form_errors s p) \<le> 1" by (simp add: markers_ok_def)
  then show ?thesis by (cases "form_errors s p") simp_all
qed

lemma validateField_error_class:
  "error_class (snd (validateField c s)) = (error_class s)(c := \<not> field_ok (controls s c))"
  by (auto simp: validateField_def clearFieldError_def showFieldError_def field_ok_def Let_def
      split_def fun_eq_iff)

lemma validateField_form_errors:
  "form_errors (snd (validateField c s)) =
     (form_errors s)(fparent (controls s c) :=
        (if field_ok (controls s c) then tl (form_errors s (fparent (controls s c)))
         else tl (tl (form_errors s (fparent (controls s c))))
              @ [snd (field_rules (controls s c))]))"
  by (auto simp: validateField_def clearFieldError_def showFieldError_def field_ok_def Let_def
      split_def fun_eq_iff)

lemma validateField_markers_ok:
  "markers_ok s \<Longrightarrow> markers_ok (snd (validateField c s))"
  by (simp add: markers_ok_def validateField_form_errors)

lemma same_but_errors_sym: "same_but_errors s t \<Longrightarrow> same_but_errors t s"
proof -
  assume "same_but_errors s t"
  then obtain e m where t: "t = s\<lparr>error_class := e, form_errors := m\<rparr>"
    unfolding same_but_errors_def by blast
  have "s = t\<lparr>error_class := error_class s, form_errors := form_errors s\<rparr>"
    unfolding t by simp
  then show ?thesis by (rule same_but_errorsI)
qed

lemma same_but_errors_eqI:
  assumes "same_but_errors s t" "error_class t = error_class s" "form_errors t = form_errors s"
  shows "t = s"
proof -
  from assms(1) obtain e m where t: "t = s\<lparr>error_class := e, form_errors := m\<rparr>"
    unfolding same_but_errors_def by blast
  have "e = error_class s" "m = form_errors s" using assms(2,3) unfolding t by simp_all
  then show ?thesis unfolding t by simp
qed

lemma validateField_agree:
  assumes "agree F P s t"
  shows "agree (insert c F) (insert (fparent (controls s c)) P)
           (snd (validateField c s)) (snd (validateField c t))"
proof -
  have st: "same_but_errors s t" and ms: "markers_ok s" and mt: "markers_ok t"
    and F: "\<forall>f\<in>F. error_class s f = error_class t f"
    and P: "\<forall>p\<in>P. form_errors s p = form_errors t p"
    using assms by (simp_all add: agree_def)
  have c: "controls t = controls s" by (rule same_but_errors_fields[OF st])
  have "same_but_errors (snd (validateField c s)) (snd (validateField c t))"
    by (rule same_but_errors_trans[OF same_but_errors_trans
          [OF same_but_errors_sym[OF validateField_same] st] validateField_same])
  then show ?thesis
    unfolding agree_def
    using F P
    by (simp add: validateField_markers_ok ms mt validateField_error_class
        validateField_form_errors c markers_ok_tl)
qed

lemma validateField_untouched:
  "untouched {c} {fparent (controls s c)} s (snd (validateField c s))"
  by (simp add: untouched_def validateField_same validateField_error_class
      validateField_form_errors)

lemma untouched_trans:
  assumes "untouched F P s t" "untouched F' P' t u"
  shows "untouched (F \<union> F') (P \<union> P') s u"
  using assms same_but_errors_trans[of s t u]
  by (auto simp: untouched_def)

lemma untouched_mono:
  "untouched F P s t \<Longrightarrow> F \<subseteq> F' \<Longrightarrow> P \<subseteq> P' \<Longrightarrow> untouched F' P' s t"
  by (auto simp: untouched_def)

lemma untouched_refl: "untouched F P s s"
  by (simp add: untouched_def same_but_errors_refl)

lemma agree_mono: "agree F P s t \<Longrightarrow> F' \<subseteq> F \<Longrightarrow> P' \<subseteq> P \<Longrightarrow> agree F' P' s t"
  by (auto simp: agree_def)

lemma validate_fields_agree:
  "agree F P s t \<Longrightarrow>
   agree (F \<union> set fs) (P \<union> (\<lambda>c. fparent (controls s c)) ` set fs)
     (snd (validate_fields fs b s)) (snd (validate_fields fs b' t))"
proof (induction fs arbitrary: F P s t b b')
  case Nil
  then show ?case by simp
next
  case (Cons c fs)
  let ?s1 = "snd (validateField c s)" and ?t1 = "snd (validateField c t)"
  have a: "agree (insert c F) (insert (fparent (controls s c)) P) ?s1 ?t1"
    by (rule validateField_agree[OF Cons.prems])
  have c1: "controls ?s1 = controls s" by (rule validateField_keeps)
  have "agree (insert c F \<union> set fs)
          (insert (fparent (controls s c)) P \<union> (\<lambda>c. fparent (controls ?s1 c)) ` set fs)
          (snd (validate_fields fs (if \<not> fst (validateField c s) then False else b) ?s1))
          (snd (validate_fields fs (if \<not> fst (validateField c t) then False else b') ?t1))"
    by (rule Cons.IH[OF a])
  then show ?case by (simp add: split_def Let_def c1 Un_commute insert_commute)
qed

lemma validate_fields_untouched:
  "untouched (set fs) ((\<lambda>c. fparent (controls s c)) ` set fs) s (snd (validate_fields fs b s))"
proof (induction fs arbitrary: s b)
  case Nil
  show ?case by (simp add: untouched_refl)
next
  case (Cons c fs)
  let ?s1 = "snd (validateField c s)"
  have c1: "controls ?s1 = controls s" by (rule validateField_keeps)
  have "untouched ({c} \<union> set fs)
          ({fparent (controls s c)} \<union> (\<lambda>c. fparent (controls ?s1 c)) ` set fs) s
          (snd (validate_fields fs (if \<not> fst (validateField c s) then False else b) ?s1))"
    by (rule untouched_trans[OF validateField_untouched Cons.IH])
  then show ?case by (simp add: split_def Let_def c1)
qed

lemma validate_fields_markers_ok:
  "markers_ok s \<Longrightarrow> markers_ok (snd (validate_fields fs b s))"
  by (induction fs arbitrary: s b) (simp_all add: split_def Let_def validateField_markers_ok)

lemma validateDates_markers_ok: "markers_ok s \<Longrightarrow> markers_ok (snd (validateDates s))"
  by (auto simp: markers_ok_def validateDates_def clearFieldError_def showFieldError_def Let_def
      split: option.split)

lemma validateDates_untouched:
  "untouched (date_writes s) ((\<lambda>c. fparent (controls s c)) ` date_writes s) s
     (snd (validateDates s))"
  by (auto simp: untouched_def validateDates_same)
     (auto simp: validateDates_def date_writes_def clearFieldError_def showFieldError_def
        Let_def split: option.splits if_splits)

lemma date_writes_cong:
  assumes "same_but_errors s t"
  shows "date_writes t = date_writes s"
  unfolding date_writes_def same_but_errors_fields[OF assms] ..

lemma validateDates_agree:
  assumes "agree F P s t"
  shows "agree (F \<union> date_writes s) (P \<union> (\<lambda>c. fparent (controls s c)) ` date_writes s)
           (snd (validateDates s)) (snd (validateDates t))"
proof -
  have st: "same_but_errors s t" and ms: "markers_ok s" and mt: "markers_ok t"
    and F: "\<forall>f\<in>F. error_class s f = error_class t f"
    and P: "\<forall>p\<in>P. form_errors s p = form_errors t p"
    using assms by (simp_all add: agree_def)
  note eq = same_but_errors_fields[OF st]
  have sb: "same_but_errors (snd (validateDates s)) (snd (validateDates t))"
    by (rule same_but_errors_trans[OF same_but_errors_trans
          [OF same_but_errors_sym[OF validateDates_same] st] validateDates_same])
  have nd: "new_Date t = new_Date s" by (simp add: new_Date_def fun_eq_iff eq)
  show ?thesis
    unfolding agree_def
    using F P sb validateDates_markers_ok[OF ms] validateDates_markers_ok[OF mt]
      markers_ok_tl[OF ms] markers_ok_tl[OF mt]
    by (auto simp: validateDates_def date_writes_def clearFieldError_def showFieldError_def
        Let_def eq nd split: option.splits)
qed

lemma step_writes_cong:
  assumes "same_but_errors s t"
  shows "step_writes t = step_writes s"
  unfolding step_writes_def same_but_errors_fields[OF assms] date_writes_cong[OF assms] ..

lemma validateCurrentStep_markers_ok:
  "markers_ok s \<Longrightarrow> markers_ok (snd (validateCurrentStep s))"
  by (simp add: validateCurrentStep_def split_def Let_def validate_fields_markers_ok
      validateDates_markers_ok split: option.split)

lemma validateCurrentStep_untouched:
  "untouched (step_writes s) ((\<lambda>c. fparent (controls s c)) ` step_writes s) s
     (snd (validateCurrentStep s))"
proof (cases "form_steps s (currentStep s)")
  case None
  then show ?thesis by (simp add: validateCurrentStep_def step_writes_def untouched_refl)
next
  case (Some fs)
  let ?s1 = "snd (validate_fields fs True s)"
  have 1: "untouched (set fs) ((\<lambda>c. fparent (controls s c)) ` set fs) s ?s1"
    by (rule validate_fields_untouched)
  have c1: "controls ?s1 = controls s" by (rule validate_fields_keeps)
  have d1: "date_writes ?s1 = date_writes s"
    by (rule date_writes_cong[OF validate_fields_same])
  have 2: "untouched (date_writes s) ((\<lambda>c. fparent (controls s c)) ` date_writes s) ?s1
             (snd (validateDates ?s1))"
    using validateDates_untouched[of ?s1] by (simp add: c1 d1)
  show ?thesis
  proof (cases "currentStep s = 2")
    case True
    then show ?thesis
      using Some untouched_trans[OF 1 2]
      by (simp add: validateCurrentStep_def step_writes_def split_def Let_def image_Un)
  next
    case False
    then show ?thesis
      using Some 1 by (simp add: validateCurrentStep_def step_writes_def split_def Let_def)
  qed
qed

lemma validateCurrentStep_agree:
  assumes "agree {} {} s t"
  shows "agree (step_writes s) ((\<lambda>c. fparent (controls s c)) ` step_writes s)
           (snd (validateCurrentStep s)) (snd (validateCurrentStep t))"
proof -
  have st: "same_but_errors s t" using assms by (simp add: agree_def)
  note eq = same_but_errors_fields[OF st]
  show ?thesis
  proof (cases "form_steps s (currentStep s)")
    case None
    then show ?thesis using assms
      by (simp add: validateCurrentStep_def step_writes_def eq)
  next
    case (Some fs)
    let ?s1 = "snd (validate_fields fs True s)" and ?t1 = "snd (validate_fields fs True t)"
    have 1: "agree (set fs) ((\<lambda>c. fparent (controls s c)) ` set fs) ?s1 ?t1"
      using validate_fields_agree[OF assms, of fs True True] by simp
    have c1: "controls ?s1 = controls s" by (rule validate_fields_keeps)
    have d1: "date_writes ?s1 = date_writes s"
      by (rule date_writes_cong[OF validate_fields_same])
    have 2: "agree (set fs \<union> date_writes s)
               ((\<lambda>c. fparent (controls s c)) ` set fs
                \<union> (\<lambda>c. fparent (controls s c)) ` date_writes s)
               (snd (validateDates ?s1)) (snd (validateDates ?t1))"
      using validateDates_agree[OF 1] by (simp add: c1 d1)
    show ?thesis
    proof (cases "currentStep s = 2")
      case True
      then show ?thesis
        using Some 2
        by (simp add: validateCurrentStep_def step_writes_def split_def Let_def image_Un eq)
    next
      case False
      then show ?thesis
        using Some 1
        by (simp add: validateCurrentStep_def step_writes_def split_def Let_def eq)
    qed
  qed
qed

lemma idempotent_from_agree:
  assumes u: "untouched F P t t'"
    and a: "agree F P t t'"
  shows "t' = t"
proof -
  have "error_class t' f = error_class t f" for f
    using u a by (cases "f \<in> F") (auto simp: untouched_def agree_def)
  moreover have "form_errors t' p = form_errors t p" for p
    using u a by (cases "p \<in> P") (auto simp: untouched_def agree_def)
  moreover have "same_but_errors t t'" using u by (simp add: untouched_def)
  ultimately show ?thesis by (intro same_but_errors_eqI) (simp_all add: fun_eq_iff)
qed

lemma validateCurrentStep_twice:
  assumes "markers_ok s"
  shows "validateCurrentStep (snd (validateCurrentStep s)) = validateCurrentStep s"
proof -
  let ?t = "snd (validateCurrentStep s)"
  have st: "same_but_errors s ?t" by (rule validateCurrentStep_same)
  note eq = same_but_errors_fields[OF st]
  have mt: "markers_ok ?t" by (rule validateCurrentStep_markers_ok[OF assms])
  have "agree {} {} s ?t" using st assms mt by (simp add: agree_def)
  then have a: "agree (step_writes ?t) ((\<lambda>c. fparent (controls ?t c)) ` step_writes ?t)
                  ?t (snd (validateCurrentStep ?t))"
    using validateCurrentStep_agree[of s ?t] by (simp add: step_writes_cong[OF st] eq)
  have u: "untouched (step_writes ?t) ((\<lambda>c. fparent (controls ?t c)) ` step_writes ?t)
             ?t (snd (validateCurrentStep ?t))"
    by (rule validateCurrentStep_untouched)
  have 1: "snd (validateCurrentStep ?t) = ?t"
    by (rule idempotent_from_agree[OF u a])
  have "step_ok ?t = step_ok s"
    by (rule step_ok_cong) (simp_all add: eq)
  then have 2: "fst (validateCurrentStep ?t) = fst (validateCurrentStep s)"
    by (simp add: validateCurrentStep_result)
  show ?thesis using 1 2 by (simp add: prod_eq_iff)
qed

lemma validateField_twice:
  assumes "markers_ok s"
  shows "validateField c (snd (validateField c s)) = validateField c s"
proof -
  let ?t = "snd (validateField c s)"
  have st: "same_but_errors s ?t" by (rule validateField_same)
  note eq = same_but_errors_fields[OF st]
  have mt: "markers_ok ?t" by (rule validateField_markers_ok[OF assms])
  have "agree {} {} ?t (snd (validateField c s))"
    using mt by (simp add: agree_def same_but_errors_refl)
  have "agree {} {} s ?t" using st assms mt by (simp add: agree_def)
  then have a: "agree {c} {fparent (controls ?t c)} ?t (snd (validateField c ?t))"
    using validateField_agree[of "{}" "{}" s ?t c] by (simp add: eq)
  have u: "untouched {c} {fparent (controls ?t c)} ?t (snd (validateField c ?t))"
    by (rule validateField_untouched)
  have 1: "snd (validateField c ?t) = ?t"
    by (rule idempotent_from_agree[OF u a])
  have 2: "fst (validateField c ?t) = fst (validateField c s)"
    by (simp add: validateField_result eq)
  show ?thesis using 1 2 by (simp add: prod_eq_iff)
qed

text \<open>Every event keeps the markers at one per element at most.\<close>

lemma markers_ok_same_errors:
  "markers_ok s \<Longrightarrow> form_errors t = form_errors s \<Longrightarrow> markers_ok t"
  by (simp add: markers_ok_def)

lemma resetForm_markers_ok: "markers_ok s \<Longrightarrow> markers_ok (resetForm s)"
  by (simp add: markers_ok_def resetForm_def form_reset_def updateStepDisplay_def Let_def
      split: option.split)

lemma makeRequest_settled_markers:
  "form_errors (snd (makeRequest_settled out s)) = form_errors s"
  by (simp add: makeRequest_settled_def handleAuthError_def split: outcome.split)

lemma handleActivitySubmit_catch_markers:
  "form_errors (snd (handleActivitySubmit_catch message s)) = form_errors s"
  by (simp add: handleActivitySubmit_catch_def showNotification_def hideLoading_def
      split: global_binding.split)

lemma loadActivities_catch_markers:
  "form_errors (snd (loadActivities_catch s)) = form_errors s"
  by (simp add: loadActivities_catch_def showNotification_def split: global_binding.split)

lemma resume_markers_ok:
  assumes "markers_ok s"
  shows "markers_ok (snd (resume k out s))"
proof -
  let ?s1 = "snd (makeRequest_settled out s)"
  have m1: "markers_ok ?s1"
    by (rule markers_ok_same_errors[OF assms makeRequest_settled_markers])
  have c: "markers_ok (snd (handleActivitySubmit_catch message t))" if "markers_ok t" for message t
    by (rule markers_ok_same_errors[OF that handleActivitySubmit_catch_markers])
  have l: "markers_ok (snd (loadActivities_catch t))" if "markers_ok t" for t
    by (rule markers_ok_same_errors[OF that loadActivities_catch_markers])
  have t: "markers_ok (t\<lparr>toasts := x\<rparr>)" if "markers_ok t" for t x
    using that by (simp add: markers_ok_def)
  have a: "markers_ok (t\<lparr>activities := x\<rparr>)" if "markers_ok t" for t x
    using that by (simp add: markers_ok_def)
  show ?thesis
    using m1 c l
    by (simp add: resume_def split_def Let_def handleActivitySubmit_fulfilled_def
        handleActivitySubmit_rejected_def loadActivities_fulfilled_def
        loadActivities_rejected_def showNotification_def resetForm_markers_ok t a
        split: awaiting.split sum.split global_binding.split)
qed

lemma dispatch_markers_ok: "markers_ok s \<Longrightarrow> markers_ok (dispatch e s)"
proof (cases e)
  case Submit
  assume m: "markers_ok s"
  have "form_errors (handleActivitySubmit s) = form_errors (snd (validateCurrentStep s))"
    by (simp add: handleActivitySubmit_def split_def Let_def makeRequest_def showLoading_def
        split: sum.split)
  then show ?thesis
    using Submit markers_ok_same_errors[OF validateCurrentStep_markers_ok[OF m]] by simp
next
  case NextStep
  assume m: "markers_ok s"
  have "form_errors (snd (nextStep s)) = form_errors (snd (validateCurrentStep s))"
    by (simp add: nextStep_def split_def Let_def showNotification_def updateStepDisplay_def
        split: global_binding.split)
  then show ?thesis
    using NextStep markers_ok_same_errors[OF validateCurrentStep_markers_ok[OF m]] by simp
next
  case (Settle i out)
  assume m: "markers_ok s"
  then have "markers_ok (s\<lparr>in_flight := take i (in_flight s) @ drop (Suc i) (in_flight s)\<rparr>)"
    by (simp add: markers_ok_def)
  then have "markers_ok (snd (resume (in_flight s ! i) out
               (s\<lparr>in_flight := take i (in_flight s) @ drop (Suc i) (in_flight s)\<rparr>)))"
    by (rule resume_markers_ok)
  then show ?thesis using Settle m by (simp add: settle_def)
next
  case (Blur c)
  assume "markers_ok s"
  then show ?thesis using Blur by (simp add: validateField_markers_ok)
next
  case DateChange
  assume "markers_ok s"
  then show ?thesis using DateChange by (simp add: validateDates_markers_ok)
qed (auto simp: previousStep_def updateStepDisplay_def handleFileSelect_def handleFileDrop_def removeFile_def
      displaySelectedFiles_def filterActivities_def handleSearch_def refreshActivities_def
      loadActivities_def makeRequest_def clearFieldError_def Let_def markers_ok_def
      split: option.splits)

lemma run_markers_ok: "markers_ok s \<Longrightarrow> markers_ok (run events s)"
  unfolding run_def by (induction events arbitrary: s) (simp_all add: dispatch_markers_ok)

text \<open>
  C7: validation is idempotent. In a state with at most one error marker per element
  (a page without markers is one, and every event keeps it so), validating the current
  step a second time with the input unchanged returns the same result and leaves the
  state of the first validation, with the same error classes and the same messages;
  no element ever gets a second marker. The same holds for \<open>validateField\<close> on one field.
\<close>

theorem validation_idempotent:
  assumes "markers_ok s"
  shows "validateCurrentStep (snd (validateCurrentStep s)) = validateCurrentStep s
         \<and> markers_ok (snd (validateCurrentStep s))
         \<and> validateField c (snd (validateField c s)) = validateField c s
         \<and> markers_ok (snd (validateField c s))
         \<and> markers_ok (run events s)"
  using assms
  by (simp add: validateCurrentStep_twice validateCurrentStep_markers_ok validateField_twice
      validateField_markers_ok run_markers_ok)

theorem validation_idempotent_witness:
  "markers_ok ((example_page_with 0 ''AB'')\<lparr>currentStep := 1\<rparr>)
   \<and> \<not> fst (validateCurrentStep ((example_page_with 0 ''AB'')\<lparr>currentStep := 1\<rparr>))
   \<and> form_errors (snd (validateCurrentStep ((example_page_with 0 ''AB'')\<lparr>currentStep := 1\<rparr>)))
         100 = [''Title must be at least 3 characters'']
   \<and> validateCurrentStep
         (snd (validateCurrentStep ((example_page_with 0 ''AB'')\<lparr>currentStep := 1\<rparr>)))
       = validateCurrentStep ((example_page_with 0 ''AB'')\<lparr>currentStep := 1\<rparr>)"
proof -
  define p where "p = (example_page_with 0 ''AB'')\<lparr>currentStep := 1\<rparr>"
  define c0 where "c0 = \<lparr>fname = ''title'', fvalue = js ''AB'', fdefault = [],
                          frequired = True, fparent = 100\<rparr>"
  define c1 where "c1 = \<lparr>fname = ''activityType'', fvalue = js ''technical'', fdefault = [],
                          frequired = True, fparent = 101\<rparr>"
  define c2 where "c2 = \<lparr>fname = ''description'', fvalue = js ''Built a line follower'',
                          fdefault = [], frequired = True, fparent = 102\<rparr>"
  have m: "markers_ok p"
    by (simp add: p_def markers_ok_def example_page_with_def example_page_def)
  have c: "controls p 0 = c0" "controls p (Suc 0) = c1" "controls p 2 = c2"
    by (simp_all add: p_def c0_def c1_def c2_def example_page_with_def example_page_def
        example_controls_def)
  have f: "form_steps p (currentStep p) = Some [0, 1, 2]" "currentStep p \<noteq> 2"
          "form_errors p = (\<lambda>_. [])"
    by (simp_all add: p_def example_page_with_def example_page_def)
  have r: "field_rules c0 = (False, ''Title must be at least 3 characters'')"
          "field_rules c1 = (True, '''')" "field_rules c2 = (True, '''')"
          "fparent c0 = 100" "fparent c1 = 101" "fparent c2 = 102"
    by (simp_all add: c0_def c1_def c2_def field_rules_def js_def trim_def
        is_StrWhiteSpaceChar_def)
  have 1: "\<not> fst (validateCurrentStep p)"
    by (simp add: validateCurrentStep_result step_ok_def f field_ok_def c r)
  have 2: "form_errors (snd (validateCurrentStep p)) 100
           = [''Title must be at least 3 characters'']"
    unfolding validateCurrentStep_def f
    by (simp add: f(2) split_def Let_def validateField_form_errors validateField_keeps c
        field_ok_def r f(3))
  show ?thesis
    using validation_idempotent[OF m, of 0 "[]"] m 1 2 unfolding p_def by simp
qed

subsection \<open>What a submission leaves behind\<close>

lemma settle_last:
  "settle (length (in_flight s)) out (makeRequest r k s)
     = snd (resume k out (s\<lparr>requests := requests s @ [r]\<rparr>))"
  by (simp add: settle_def makeRequest_def nth_append)

text \<open>
  When \<open>NotificationManager\<close> denotes the class, the rest of a fulfilled submission is
  two calls that throw and the \<open>finally\<close> block: the form is as it was.
\<close>

lemma handleActivitySubmit_fulfilled_class:
  assumes "NotificationManager_binding s = The_class"
  shows "handleActivitySubmit_fulfilled s = (Some TypeError, hideLoading s)"
  using assms
  by (simp add: handleActivitySubmit_fulfilled_def handleActivitySubmit_catch_def
      showNotification_def)

text \<open>
  When it denotes the instance, the form is reset, and the missing method
  \<open>hideAddActivityModal\<close> makes an error toast follow the success toast.
\<close>

lemma handleActivitySubmit_fulfilled_instance:
  assumes "NotificationManager_binding s = The_instance"
  shows "handleActivitySubmit_fulfilled s =
    (None,
     hideLoading
       ((resetForm
           (s\<lparr>toasts := toasts s
                  @ [Notification
                       ''Activity submitted successfully! It will be reviewed by your institution.''
                       ''success'' ''Activity Submitted'']\<rparr>))
        \<lparr>toasts := toasts s
           @ [Notification
                ''Activity submitted successfully! It will be reviewed by your institution.''
                ''success'' ''Activity Submitted'',
              Notification ''this.hideAddActivityModal is not a function''
                ''error'' ''Submission Failed'']\<rparr>))"
proof -
  let ?s1 = "s\<lparr>toasts := toasts s
                @ [Notification
                     ''Activity submitted successfully! It will be reviewed by your institution.''
                     ''success'' ''Activity Submitted'']\<rparr>"
  have b: "NotificationManager_binding (resetForm ?s1) = The_instance"
    "toasts (resetForm ?s1) = toasts ?s1"
    using assms
    by (simp_all add: resetForm_def form_reset_def updateStepDisplay_def Let_def
        split: option.split)
  show ?thesis
    using assms b
    by (simp add: handleActivitySubmit_fulfilled_def handleActivitySubmit_catch_def
        showNotification_def)
qed

text \<open>
  A failed request leaves the form as it was, whatever the failure and whatever
  \<open>NotificationManager\<close> denotes; status 401 sends the window to \<open>index.html\<close>.
\<close>

lemma makeRequest_settled_form:
  "currentStep (snd (makeRequest_settled out s)) = currentStep s"
  "totalSteps (snd (makeRequest_settled out s)) = totalSteps s"
  "controls (snd (makeRequest_settled out s)) = controls s"
  "documents (snd (makeRequest_settled out s)) = documents s"
  "selectedFiles (snd (makeRequest_settled out s)) = selectedFiles s"
  "error_class (snd (makeRequest_settled out s)) = error_class s"
  "form_errors (snd (makeRequest_settled out s)) = form_errors s"
  "NotificationManager_binding (snd (makeRequest_settled out s)) = NotificationManager_binding s"
  "toasts (snd (makeRequest_settled out s)) = toasts s"
  by (simp_all add: makeRequest_settled_def handleAuthError_def split: outcome.split)

lemma handleActivitySubmit_rejected_form:
  "currentStep (snd (handleActivitySubmit_rejected message s)) = currentStep s"
  "totalSteps (snd (handleActivitySubmit_rejected message s)) = totalSteps s"
  "controls (snd (handleActivitySubmit_rejected message s)) = controls s"
  "documents (snd (handleActivitySubmit_rejected message s)) = documents s"
  "selectedFiles (snd (handleActivitySubmit_rejected message s)) = selectedFiles s"
  "error_class (snd (handleActivitySubmit_rejected message s)) = error_class s"
  "form_errors (snd (handleActivitySubmit_rejected message s)) = form_errors s"
  by (simp_all add: handleActivitySubmit_rejected_def handleActivitySubmit_catch_def
      showNotification_def hideLoading_def split: global_binding.split)

lemma makeRequest_settled_401:
  "makeRequest_settled (Responds 401 parsed) s
     = (Inl ''Authentication required'',
        s\<lparr>localStorage := (localStorage s)(''ssh_token'' := None, ''ssh_user'' := None),
          location_href := ''index.html''\<rparr>)"
  by (simp add: makeRequest_settled_def handleAuthError_def)

lemma submitted_page_eq:
  "submitted_page
     = makeRequest
         (POST_activities
            \<lparr>fd_parts =
               [(''title'', js ''Robotics workshop''), (''activityType'', js ''technical''),
                (''description'', js ''Built a line follower''),
                (''startDate'', js ''2025-03-10''), (''endDate'', js ''2025-03-15''),
                (''durationHours'', js ''3''), (''venue'', js ''Lab 2''),
                (''organizer'', js ''IEEE''), (''roleInActivity'', js ''Participant''),
                (''achievement'', js ''First prize''), (''skillsGained'', js ''Soldering'')],
             fd_documents = [example_file ''a.pdf'']\<rparr>)
         Submit_awaits
         (showLoading
            (snd (validateCurrentStep
                    (example_page\<lparr>documents := Some [example_file ''a.pdf''],
                                   selectedFiles := Some [example_file ''a.pdf'']\<rparr>))))"
proof -
  let ?s1 = "example_page\<lparr>documents := Some [example_file ''a.pdf''],
                           selectedFiles := Some [example_file ''a.pdf'']\<rparr>"
  have d: "dispatch (FileDrop [example_file ''a.pdf'']) example_page = ?s1"
    by (simp add: handleFileDrop_def displaySelectedFiles_def example_page_def)
  have "step_ok ?s1 = step_ok example_page"
    by (rule step_ok_cong) simp_all
  then have ok: "step_ok ?s1" by (simp add: example_page_step_ok)
  have fd: "collectFormData ?s1 =
     Inr \<lparr>fd_parts =
            [(''title'', js ''Robotics workshop''), (''activityType'', js ''technical''),
             (''description'', js ''Built a line follower''), (''startDate'', js ''2025-03-10''),
             (''endDate'', js ''2025-03-15''), (''durationHours'', js ''3''),
             (''venue'', js ''Lab 2''), (''organizer'', js ''IEEE''),
             (''roleInActivity'', js ''Participant''), (''achievement'', js ''First prize''),
             (''skillsGained'', js ''Soldering'')],
          fd_documents = [example_file ''a.pdf'']\<rparr>"
    by (simp add: collectFormData_def payload_fields_def example_page_def example_controls_def)
  show ?thesis
    unfolding submitted_page_def run_def
    using handleActivitySubmit_first[OF ok fd] d by simp
qed

text \<open>
  C2 fails on the program, in its first case. The example page is filled in, stands on
  the last step and has one file selected; the form is submitted and the server
  reports the activity created. The call of \<open>NotificationManager.showNotification\<close>
  throws before \<open>resetForm\<close> is reached, the same call in the \<open>catch\<close> block throws
  again, and the method ends with a \<open>TypeError\<close>: the page is still on step 3, the file
  is still selected, every field holds its value, and no toast is shown.
\<close>

theorem submit_success_not_reset:
  "length (filter is_POST_activities (requests submitted_page)) = 1
   \<and> in_flight submitted_page = [Submit_awaits]
   \<and> currentStep submitted_page = totalSteps submitted_page
   \<and> fst (resume Submit_awaits created (submitted_page\<lparr>in_flight := []\<rparr>)) = Some TypeError
   \<and> currentStep (settle 0 created submitted_page) = 3
   \<and> documents (settle 0 created submitted_page) = Some [example_file ''a.pdf'']
   \<and> selectedFiles (settle 0 created submitted_page) = Some [example_file ''a.pdf'']
   \<and> controls (settle 0 created submitted_page) = controls example_page
   \<and> fvalue (controls (settle 0 created submitted_page) 0) = js ''Robotics workshop''
   \<and> fdefault (controls (settle 0 created submitted_page) 0) = []
   \<and> toasts (settle 0 created submitted_page) = []
   \<and> in_flight (settle 0 created submitted_page) = []"
proof -
  let ?s1 = "example_page\<lparr>documents := Some [example_file ''a.pdf''],
                           selectedFiles := Some [example_file ''a.pdf'']\<rparr>"
  let ?v = "snd (validateCurrentStep ?s1)"
  note k = validateCurrentStep_keeps[of ?s1]
  have e: "requests example_page = []" "in_flight example_page = []"
    "currentStep example_page = 3" "totalSteps example_page = 3" "toasts example_page = []"
    "NotificationManager_binding example_page = The_class"
    by (simp_all add: example_page_def)
  have p: "requests submitted_page = [POST_activities
            \<lparr>fd_parts =
               [(''title'', js ''Robotics workshop''), (''activityType'', js ''technical''),
                (''description'', js ''Built a line follower''),
                (''startDate'', js ''2025-03-10''), (''endDate'', js ''2025-03-15''),
                (''durationHours'', js ''3''), (''venue'', js ''Lab 2''),
                (''organizer'', js ''IEEE''), (''roleInActivity'', js ''Participant''),
                (''achievement'', js ''First prize''), (''skillsGained'', js ''Soldering'')],
             fd_documents = [example_file ''a.pdf'']\<rparr>]"
    "in_flight submitted_page = [Submit_awaits]"
    "currentStep submitted_page = 3" "totalSteps submitted_page = 3"
    "documents submitted_page = Some [example_file ''a.pdf'']"
    "selectedFiles submitted_page = Some [example_file ''a.pdf'']"
    "controls submitted_page = controls example_page"
    "toasts submitted_page = []"
    "NotificationManager_binding submitted_page = The_class"
    unfolding submitted_page_eq
    by (simp_all add: makeRequest_def showLoading_def k e)
  have m: "makeRequest_settled created t
           = (Inr \<lparr>body_message = [], body_activities = None\<rparr>, t)" for t
    by (simp add: makeRequest_settled_def created_def)
  have r: "resume Submit_awaits created (submitted_page\<lparr>in_flight := []\<rparr>)
           = (Some TypeError, hideLoading (submitted_page\<lparr>in_flight := []\<rparr>))"
    using handleActivitySubmit_fulfilled_class[of "submitted_page\<lparr>in_flight := []\<rparr>"] p(9)
    by (simp add: resume_def m)
  have s: "settle 0 created submitted_page = hideLoading (submitted_page\<lparr>in_flight := []\<rparr>)"
    using r p(2) by (simp add: settle_def)
  have c: "fvalue (controls example_page 0) = js ''Robotics workshop''"
    "fdefault (controls example_page 0) = []"
    by (simp_all add: example_page_def example_controls_def)
  show ?thesis
    unfolding s using r p c by (simp add: hideLoading_def)
qed

end
